theory Spec2Isabelle
  imports Complex_Main "HOL-Library.AList"
begin

section \<open>JavaScript values as the server and the page script see them\<close>

text \<open>
  The server is TypeScript, compiled to JavaScript: the declared types are not checked
  when a request arrives, and the code decides with truthiness (\<open>!sessionId\<close>,
  \<open>state?.xml || null\<close>, \<open>if (pendingXml)\<close>). The values that \<open>JSON.parse\<close> can
  return, and \<open>undefined\<close> for a property that is not there, are therefore modelled as one
  datatype. A number is a rational (every finite double is one); the only thing the code
  asks of a number it did not compute itself is whether it is zero.
\<close>

datatype jsval =
    JUndefined
  | JNull
  | JBool bool
  | JNum rat
  | JStr string
  | JArr "jsval list"
  | JObj "(string \<times> jsval) list"

text \<open>ToBoolean: \<open>undefined\<close>, \<open>null\<close>, \<open>false\<close>, \<open>0\<close> and \<open>""\<close> are falsy, all else is truthy.\<close>

fun truthy :: "jsval \<Rightarrow> bool" where
  "truthy JUndefined = False"
| "truthy JNull = False"
| "truthy (JBool b) = b"
| "truthy (JNum n) = (n \<noteq> 0)"
| "truthy (JStr s) = (s \<noteq> [])"
| "truthy (JArr xs) = True"
| "truthy (JObj kvs) = True"

text \<open>\<open>a || b\<close>.\<close>

definition js_or :: "jsval \<Rightarrow> jsval \<Rightarrow> jsval" where
  "js_or a b = (if truthy a then a else b)"

text \<open>
  Reading a property \<open>v.name\<close>, also through the destructuring
  \<open>const { sessionId, xml } = v\<close>: on \<open>null\<close> and \<open>undefined\<close> it throws a TypeError
  (\<open>None\<close>), on an object it is the member or \<open>undefined\<close>, and on a boolean, number,
  string or array it is \<open>undefined\<close> for every name the program reads (\<open>sessionId\<close>,
  \<open>xml\<close>, \<open>event\<close>, \<open>data\<close>: none is a built-in property). The members of a parsed
  object have distinct names; \<open>map_of\<close> takes the first entry of a name.
\<close>

fun get_prop :: "jsval \<Rightarrow> string \<Rightarrow> jsval option" where
  "get_prop JUndefined name = None"
| "get_prop JNull name = None"
| "get_prop (JObj kvs) name =
     Some (case map_of kvs name of None \<Rightarrow> JUndefined | Some v \<Rightarrow> v)"
| "get_prop v name = Some JUndefined"

text \<open>
  Conversion to a string, as the template literals in the log lines of \<open>setState\<close>
  and of the sweep do it with the session id: it throws a TypeError for an object that has a member
  named \<open>toString\<close> (a parsed member is never a function, and the inherited
  \<open>valueOf\<close> returns the object), and for an array with such an element, since
  \<open>join\<close> converts the elements. Everything else converts.
\<close>

fun printable :: "jsval \<Rightarrow> bool" where
  "printable (JObj kvs) = (map_of kvs ''toString'' = None)"
| "printable (JArr xs) = list_all printable xs"
| "printable v = True"

datatype js_error = TypeError

section \<open>The session store\<close>

text \<open>
  \<open>interface SessionState { xml: string; version: number; lastUpdated: Date }\<close>.
  The \<open>xml\<close> field holds whatever \<open>setState\<close> was given (the POST handler passes the
  parsed member on unchecked), \<open>version\<close> is a count of writes (a JavaScript number
  that holds a natural number, exact for every count below \<open>2^53\<close>; the model counts
  in \<open>nat\<close>), and \<open>lastUpdated\<close> is the instant of the write in milliseconds since the
  epoch, as \<open>Date.getTime\<close> reads it.
\<close>

record SessionState =
  xml :: jsval
  version :: nat
  lastUpdated :: int

text \<open>
  A key of the JavaScript \<open>Map\<close>. Keys are compared by SameValueZero: \<open>undefined\<close>,
  \<open>null\<close>, booleans, numbers and strings by value (\<open>KPrim\<close>), an array or object by
  identity: \<open>KRef a v\<close> is the object at address \<open>a\<close>, and \<open>v\<close> is what it holds
  (nothing changes a parsed object). The session id \<open>"abc"\<close> is the key
  \<open>KPrim (JStr ''abc'')\<close>.
\<close>

datatype key = KPrim jsval | KRef nat jsval

text \<open>Whether a key converts to a string.\<close>

fun key_printable :: "key \<Rightarrow> bool" where
  "key_printable (KPrim v) = printable v"
| "key_printable (KRef a v) = printable v"

text \<open>
  \<open>stateStore = new Map<string, SessionState>()\<close>: the entries in insertion order.
  \<open>Map.get\<close> is \<open>map_of\<close>; \<open>Map.set\<close> is \<open>AList.update\<close>, which replaces the
  value of a key in place and appends a new key at the end; \<open>Map.delete\<close> is
  \<open>AList.delete\<close>.
\<close>

type_synonym store = "(key \<times> SessionState) list"

definition getState :: "key \<Rightarrow> store \<Rightarrow> SessionState option" where
  "getState sessionId st = map_of st sessionId"

text \<open>
  \<open>setState\<close>; \<open>now\<close> is the clock reading of \<open>new Date()\<close>. The result is the
  returned version and the store after the call. The log line after \<open>stateStore.set\<close>
  cannot throw for a session id that is a string; for the ids that only a request can
  bring it is modelled in the request handler.
\<close>

definition setState :: "int \<Rightarrow> key \<Rightarrow> jsval \<Rightarrow> store \<Rightarrow> nat \<times> store" where
  "setState now sessionId x st =
     (let existing = map_of st sessionId;
          newVersion =
            (case existing of
               None \<Rightarrow> 0
             | Some s \<Rightarrow> if version s = 0 then 0 else version s) + 1
      in (newVersion,
          AList.update sessionId
            \<lparr>xml = x, version = newVersion, lastUpdated = now\<rparr> st))"

text \<open>A sequence of calls of \<open>setState\<close>, with the key and the version each call returned.\<close>

fun setState_calls :: "store \<Rightarrow> (int \<times> key \<times> jsval) list \<Rightarrow> (key \<times> nat) list \<times> store" where
  "setState_calls st [] = ([], st)"
| "setState_calls st ((now, k, x) # ws) =
     (let (v, st1) = setState now k x st;
          (kvs, st2) = setState_calls st1 ws
      in ((k, v) # kvs, st2))"

text \<open>The versions returned to the writers of one session, in call order.\<close>

definition returned_to :: "key \<Rightarrow> (key \<times> nat) list \<Rightarrow> nat list" where
  "returned_to k kvs = map snd (filter (\<lambda>p. fst p = k) kvs)"

text \<open>How many of the writes go to one session.\<close>

definition writes_to :: "key \<Rightarrow> (int \<times> key \<times> jsval) list \<Rightarrow> nat" where
  "writes_to k ws = length (filter (\<lambda>w. fst (snd w) = k) ws)"

text \<open>The version on record for a session, 0 when there is no record.\<close>

definition priorVersion :: "store \<Rightarrow> key \<Rightarrow> nat" where
  "priorVersion st k = (case map_of st k of None \<Rightarrow> 0 | Some s \<Rightarrow> version s)"

section \<open>The expiry sweep\<close>

definition SESSION_TTL :: int where
  "SESSION_TTL = 60 * 60 * 1000"

text \<open>
  \<open>cleanupExpiredSessions\<close>: the \<open>for ... of stateStore\<close> loop visits the entries in
  insertion order and deletes from the live map; deleting the entry being visited does
  not disturb the iteration. After each deletion the log line converts the key to a
  string; when that throws, the function is left with the TypeError and the entries
  after this one are not visited. \<open>now\<close> is the reading of \<open>Date.now()\<close>. The
  function returns nothing: the model's result is the error, if one was thrown, and the
  store after the run.
\<close>

fun cleanup_loop ::
  "int \<Rightarrow> (key \<times> SessionState) list \<Rightarrow> store \<Rightarrow> js_error option \<times> store"
where
  "cleanup_loop now [] st = (None, st)"
| "cleanup_loop now ((sessionId, state) # rest) st =
     (if now - lastUpdated state > SESSION_TTL then
        (let st' = AList.delete sessionId st
         in if key_printable sessionId then cleanup_loop now rest st'
            else (Some TypeError, st'))
      else cleanup_loop now rest st)"

definition cleanupExpiredSessions :: "int \<Rightarrow> store \<Rightarrow> js_error option \<times> store" where
  "cleanupExpiredSessions now st = cleanup_loop now st st"

section \<open>The listener\<close>

text \<open>
  What \<open>server.listen(port, callback)\<close> does is given by the environment. The system
  binds a socket, \<open>ListenOk\<close>: to the port asked for, or, asked for port 0, to a port of
  its choice, which \<open>ListenOk\<close> carries; or it refuses with a code (\<open>err.code\<close>). In
  both cases \<open>listen\<close> returns at once and the event, \<open>listening\<close> or \<open>error\<close>, is
  delivered later.
\<close>

datatype listen_result = ListenOk nat | ListenError string

definition bound_port :: "nat \<Rightarrow> nat \<Rightarrow> nat" where
  "bound_port port chosen = (if port = 0 then chosen else port)"

datatype deferred = EmitListening | EmitError string

text \<open>
  An \<open>http.Server\<close> object that \<open>startHttpServer\<close> has created: the \<open>port\<close> its
  handlers close over (the argument of its \<open>listen\<close>), the port of the socket it
  holds, if it holds one, and the event that \<open>listen\<close> has queued and that has not yet
  been delivered.
\<close>

record http_server =
  listenPort :: nat
  handle :: "nat option"
  queued :: "deferred option"

text \<open>
  The module variables \<open>server\<close> and \<open>serverPort\<close>, and the server objects created
  so far, in the order of their creation. \<open>server\<close> is \<open>null\<close> or refers to one of
  them, by its index.
\<close>

record listener =
  server :: "nat option"
  serverPort :: nat
  servers :: "http_server list"

definition initial_listener :: listener where
  "initial_listener = \<lparr>server = None, serverPort = 6002, servers = []\<rparr>"

definition MAX_PORT :: nat where
  "MAX_PORT = 6020"

text \<open>What the promise is rejected with: \<open>new Error(message)\<close>, or the error of the listener.\<close>

datatype start_error = Error string | Errno string

text \<open>The object that \<open>http.createServer\<close> and \<open>server.listen(port, ...)\<close> leave.\<close>

definition listen_on :: "(nat \<Rightarrow> listen_result) \<Rightarrow> nat \<Rightarrow> http_server" where
  "listen_on env port =
     (case env port of
        ListenOk chosen \<Rightarrow>
          \<lparr>listenPort = port, handle = Some (bound_port port chosen), queued = Some EmitListening\<rparr>
      | ListenError code \<Rightarrow>
          \<lparr>listenPort = port, handle = None, queued = Some (EmitError code)\<rparr>)"

text \<open>
  The second half of the promise's executor:
  \<open>serverPort = port; server = http.createServer(...); server.on("error", ...);
  server.listen(port, ...)\<close>.
\<close>

definition created :: "(nat \<Rightarrow> listen_result) \<Rightarrow> nat \<Rightarrow> listener \<Rightarrow> listener" where
  "created env port l =
     l\<lparr>serverPort := port,
       server := Some (length (servers l)),
       servers := servers l @ [listen_on env port]\<rparr>"

text \<open>The queued event of the server \<open>s\<close> is taken from the queue.\<close>

definition delivered :: "nat \<Rightarrow> listener \<Rightarrow> listener" where
  "delivered s l = l\<lparr>servers := (servers l)[s := (servers l ! s)\<lparr>queued := None\<rparr>]\<rparr>"

text \<open>
  The state in which the \<open>error\<close> handler, after \<open>server = null\<close>, calls
  \<open>startHttpServer(port + 1)\<close>: the server that failed on \<open>port\<close> stays behind,
  without a socket.
\<close>

definition retried :: "nat \<Rightarrow> listener \<Rightarrow> listener" where
  "retried port l =
     l\<lparr>serverPort := port,
       servers := servers l @ [\<lparr>listenPort = port, handle = None, queued = None\<rparr>],
       server := None\<rparr>"

text \<open>
  \<open>startHttpServer\<close>, awaited: the call, the event of the server it creates, and
  through the \<open>error\<close> handler the retries and their events, with no other call in
  between. The result is how the promise settles (\<open>Inr\<close> the port it resolves with),
  the state afterwards, and the ports \<open>listen\<close> was called on, in order. A \<open>listen\<close>
  that throws at once (a port out of range) rejects the promise like an error with
  another code.
\<close>

function startHttpServer ::
  "(nat \<Rightarrow> listen_result) \<Rightarrow> nat \<Rightarrow> listener \<Rightarrow> (start_error + nat) \<times> listener \<times> nat list"
where
  "startHttpServer env port l =
     (case server l of
        Some srv \<Rightarrow> (Inr (serverPort l), l, [])
      | None \<Rightarrow>
          (let l1 = delivered (length (servers l)) (created env port l) in
           case env port of
             ListenOk chosen \<Rightarrow> (Inr port, l1\<lparr>serverPort := port\<rparr>, [port])
           | ListenError code \<Rightarrow>
               if code = ''EADDRINUSE'' then
                 if port \<ge> MAX_PORT then
                   (Inl (Error ''No available ports in range 6002-6020''), l1, [port])
                 else
                   (let (r, l2, tried) = startHttpServer env (port + 1) (l1\<lparr>server := None\<rparr>)
                    in (r, l2, port # tried))
               else (Inl (Errno code), l1, [port])))"
  by pat_completeness auto
termination
  by (relation "measure (\<lambda>(env, port, l). MAX_PORT - port)") auto

declare startHttpServer.simps [simp del]

text \<open>
  The same code, one run at a time. \<open>startHttpServer_sync\<close> is the call up to the
  return of the promise: \<open>Some\<close> the port when the promise is resolved at once, else
  \<open>None\<close>, with a server created and its event queued (also for a \<open>listen\<close> that
  throws at once, whose rejection the model delivers as the event of that server).
\<close>

definition startHttpServer_sync ::
  "(nat \<Rightarrow> listen_result) \<Rightarrow> nat \<Rightarrow> listener \<Rightarrow> nat option \<times> listener"
where
  "startHttpServer_sync env port l =
     (case server l of
        Some srv \<Rightarrow> (Some (serverPort l), l)
      | None \<Rightarrow> (None, created env port l))"

text \<open>
  \<open>deliver\<close> is the delivery of the queued event of the server \<open>s\<close>, which runs the
  callback of \<open>listen\<close> or the \<open>error\<close> handler of that server; \<open>env\<close> is the
  environment of the \<open>listen\<close> that a retry calls. The result is \<open>Some\<close> how the
  promise of that server's call settles, if this run settles it. A \<open>listening\<close>
  event is dropped when the server has been closed in the meantime.
\<close>

definition deliver ::
  "(nat \<Rightarrow> listen_result) \<Rightarrow> nat \<Rightarrow> listener \<Rightarrow> (start_error + nat) option \<times> listener"
where
  "deliver env s l =
     (if s < length (servers l) then
        (let srv = servers l ! s; port = listenPort srv; l1 = delivered s l in
         case queued srv of
           None \<Rightarrow> (None, l)
         | Some EmitListening \<Rightarrow>
             if handle srv = None then (None, l1)
             else (Some (Inr port), l1\<lparr>serverPort := port\<rparr>)
         | Some (EmitError code) \<Rightarrow>
             if code = ''EADDRINUSE'' then
               if port \<ge> MAX_PORT then
                 (Some (Inl (Error ''No available ports in range 6002-6020'')), l1)
               else
                 (case startHttpServer_sync env (port + 1) (l1\<lparr>server := None\<rparr>) of
                    (Some p, l2) \<Rightarrow> (Some (Inr p), l2)
                  | (None, l2) \<Rightarrow> (None, l2))
             else (Some (Inl (Errno code)), l1))
      else (None, l))"

text \<open>
  The events of the servers \<open>s\<close>, \<open>s + 1\<close>, ... delivered one after the other, until
  one of them settles the promise or \<open>n\<close> have been delivered.
\<close>

fun deliveries ::
  "(nat \<Rightarrow> listen_result) \<Rightarrow> nat \<Rightarrow> nat \<Rightarrow> listener \<Rightarrow> (start_error + nat) option \<times> listener"
where
  "deliveries env s 0 l = (None, l)"
| "deliveries env s (Suc n) l =
     (case deliver env s l of
        (Some r, l') \<Rightarrow> (Some r, l')
      | (None, l') \<Rightarrow> deliveries env (Suc s) n l')"

text \<open>
  Two environments for the examples: every port free, and every port below \<open>n\<close> in
  use; asked for port 0, the system chooses 49152.
\<close>

definition all_free :: "nat \<Rightarrow> listen_result" where
  "all_free port = ListenOk 49152"

definition busy_below :: "nat \<Rightarrow> nat \<Rightarrow> listen_result" where
  "busy_below n port = (if port < n then ListenError ''EADDRINUSE'' else ListenOk 49152)"

text \<open>\<open>stopHttpServer\<close>: \<open>server.close()\<close> gives up the socket; then \<open>server = null\<close>.\<close>

definition stopHttpServer :: "listener \<Rightarrow> listener" where
  "stopHttpServer l =
     (case server l of
        Some s \<Rightarrow> l\<lparr>servers := (servers l)[s := (servers l ! s)\<lparr>handle := None\<rparr>], server := None\<rparr>
      | None \<Rightarrow> l)"

definition getServerPort :: "listener \<Rightarrow> nat" where
  "getServerPort l = serverPort l"

text \<open>The port of the socket that the server in \<open>server\<close> holds, if there is one.\<close>

definition listening_on :: "listener \<Rightarrow> nat option" where
  "listening_on l =
     (case server l of
        None \<Rightarrow> None
      | Some s \<Rightarrow> if s < length (servers l) then handle (servers l ! s) else None)"

text \<open>
  The calls a caller can make on the listener when it awaits each start before the next
  call, and the states they lead to.
\<close>

datatype listener_call = Start "nat \<Rightarrow> listen_result" nat | Stop

fun listener_calls :: "listener \<Rightarrow> listener_call list \<Rightarrow> listener" where
  "listener_calls l [] = l"
| "listener_calls l (Start env port # cs) =
     listener_calls (fst (snd (startHttpServer env port l))) cs"
| "listener_calls l (Stop # cs) = listener_calls (stopHttpServer l) cs"

text \<open>
  What holds of the listener between awaited calls: \<open>server\<close> refers to a server that
  exists; no event is queued; a server that holds a socket is the one in \<open>server\<close>, and
  \<open>serverPort\<close> is the port of its \<open>listen\<close>; and the socket is bound to that port,
  unless that port is 0.
\<close>

definition quiet :: "listener \<Rightarrow> bool" where
  "quiet l \<longleftrightarrow>
     (\<forall>s. server l = Some s \<longrightarrow> s < length (servers l))
   \<and> (\<forall>i < length (servers l).
        queued (servers l ! i) = None
        \<and> (handle (servers l ! i) \<noteq> None \<longrightarrow>
             server l = Some i \<and> serverPort l = listenPort (servers l ! i))
        \<and> (\<forall>b. handle (servers l ! i) = Some b \<longrightarrow> listenPort (servers l ! i) \<noteq> 0 \<longrightarrow>
                b = listenPort (servers l ! i)))"

section \<open>The request router and the state API\<close>

text \<open>
  A request as the handlers read it: \<open>req.method\<close>, the path and query of
  \<open>new URL(req.url, ...)\<close>, and for the body the outcome of \<open>JSON.parse\<close> on the
  concatenated chunks, \<open>None\<close> when it throws. \<open>searchParams.get\<close> is \<open>map_of\<close>: the
  first value of the name, or \<open>null\<close>.
\<close>

record request =
  httpMethod :: string
  pathname :: string
  searchParams :: "(string \<times> string) list"
  parsedBody :: "jsval option"

text \<open>
  A response: the status, the headers, and what \<open>res.end\<close> was given: nothing, a text,
  the value handed to \<open>JSON.stringify\<close>, or the page of \<open>getHtmlPage\<close> for a session id.
\<close>

datatype payload = NoBody | Text string | Json jsval | Page string

record response =
  status :: nat
  headers :: "(string \<times> string) list"
  payload :: payload

text \<open>The three \<open>setHeader\<close> calls at the top of \<open>handleRequest\<close>.\<close>

definition cors_headers :: "(string \<times> string) list" where
  "cors_headers =
     [(''Access-Control-Allow-Origin'', ''*''),
      (''Access-Control-Allow-Methods'', ''GET, POST, OPTIONS''),
      (''Access-Control-Allow-Headers'', ''Content-Type'')]"

text \<open>\<open>res.writeHead(code, { "Content-Type": "application/json" }); res.end(JSON.stringify(v))\<close>.\<close>

definition json_response :: "nat \<Rightarrow> jsval \<Rightarrow> response" where
  "json_response code v =
     \<lparr>status = code,
      headers = cors_headers @ [(''Content-Type'', ''application/json'')],
      payload = Json v\<rparr>"

text \<open>\<open>res.writeHead(code); res.end(text)\<close>.\<close>

definition text_response :: "nat \<Rightarrow> string \<Rightarrow> response" where
  "text_response code t = \<lparr>status = code, headers = cors_headers, payload = Text t\<rparr>"

definition getHtmlPage :: "string \<Rightarrow> payload" where
  "getHtmlPage sessionId = Page sessionId"

definition serveHtml :: "request \<Rightarrow> response" where
  "serveHtml req =
     (let sessionId =
            (case map_of (searchParams req) ''mcp'' of
               None \<Rightarrow> []
             | Some s \<Rightarrow> if s = [] then [] else s)
      in \<lparr>status = 200,
          headers = cors_headers @ [(''Content-Type'', ''text/html'')],
          payload = getHtmlPage sessionId\<rparr>)"

text \<open>
  What the handlers can change: the store, and the next free object address. An array or
  object that \<open>JSON.parse\<close> built is a new object, so as a key of the map it is equal to
  no key already there.
\<close>

record server_state =
  stateStore :: store
  nextRef :: nat

fun to_key :: "jsval \<Rightarrow> nat \<Rightarrow> key \<times> nat" where
  "to_key (JArr xs) n = (KRef n (JArr xs), Suc n)"
| "to_key (JObj kvs) n = (KRef n (JObj kvs), Suc n)"
| "to_key v n = (KPrim v, n)"

text \<open>
  \<open>Date.prototype.toISOString\<close> on an instant in milliseconds since the epoch:
  \<open>YYYY-MM-DDTHH:mm:ss.sssZ\<close> in UTC, the proleptic Gregorian calendar, the year
  with four digits from 0 to 9999 and with a sign and six digits outside.
\<close>

definition digit :: "int \<Rightarrow> char" where
  "digit n = ''0123456789'' ! nat (n mod 10)"

definition pad2 :: "int \<Rightarrow> string" where
  "pad2 n = [digit (n div 10), digit n]"

definition pad3 :: "int \<Rightarrow> string" where
  "pad3 n = [digit (n div 100), digit (n div 10), digit n]"

definition year_string :: "int \<Rightarrow> string" where
  "year_string y =
     (if 0 \<le> y \<and> y \<le> 9999 then pad2 (y div 100) @ pad2 y
      else (if y < 0 then ''-'' else ''+'') @ pad3 (\<bar>y\<bar> div 1000) @ pad3 \<bar>y\<bar>)"

text \<open>The year, month and day of a day number (days since 1 January 1970).\<close>

definition civil_from_days :: "int \<Rightarrow> int \<times> int \<times> int" where
  "civil_from_days n =
     (let z = n + 719468;
          era = z div 146097;
          doe = z mod 146097;
          yoe = (doe - doe div 1460 + doe div 36524 - doe div 146096) div 365;
          doy = doe - (365 * yoe + yoe div 4 - yoe div 100);
          mp = (5 * doy + 2) div 153;
          d = doy - (153 * mp + 2) div 5 + 1;
          m = (if mp < 10 then mp + 3 else mp - 9);
          y = yoe + era * 400 + (if m \<le> 2 then 1 else 0)
      in (y, m, d))"

definition toISOString :: "int \<Rightarrow> string" where
  "toISOString t =
     (case civil_from_days (t div 86400000) of
        (y, m, d) \<Rightarrow>
          (let ms = t mod 86400000
           in year_string y @ ''-'' @ pad2 m @ ''-'' @ pad2 d @ ''T''
              @ pad2 (ms div 3600000) @ '':'' @ pad2 (ms div 60000 mod 60) @ '':''
              @ pad2 (ms div 1000 mod 60) @ ''.'' @ pad3 (ms mod 1000) @ ''Z''))"

text \<open>
  \<open>handleStateApi\<close>; \<open>now\<close> is the clock reading a write takes. The handler of a POST runs when the body has ended;
  the model is that run. Everything in the \<open>try\<close> block that throws (\<open>JSON.parse\<close>,
  destructuring \<open>null\<close>, the log line of \<open>setState\<close>, which comes after the store
  has been updated) ends in the \<open>catch\<close>.
\<close>

definition handleStateApi ::
  "int \<Rightarrow> request \<Rightarrow> server_state \<Rightarrow> response \<times> server_state"
where
  "handleStateApi now req st =
     (if httpMethod req = ''GET'' then
        (let sessionId =
               (case map_of (searchParams req) ''sessionId'' of
                  None \<Rightarrow> JNull
                | Some s \<Rightarrow> JStr s)
         in if \<not> truthy sessionId then
              (json_response 400 (JObj [(''error'', JStr ''sessionId required'')]), st)
            else
              (let state = map_of (stateStore st) (KPrim sessionId)
               in (json_response 200
                     (JObj
                       [(''xml'',
                           js_or (case state of None \<Rightarrow> JUndefined | Some s \<Rightarrow> xml s) JNull),
                        (''version'',
                           JNum (of_nat
                             (case state of
                                None \<Rightarrow> 0
                              | Some s \<Rightarrow> if version s = 0 then 0 else version s))),
                        (''lastUpdated'',
                           js_or
                             (case state of
                                None \<Rightarrow> JUndefined
                              | Some s \<Rightarrow> JStr (toISOString (lastUpdated s)))
                             JNull)]),
                   st)))
      else if httpMethod req = ''POST'' then
        (case parsedBody req of
           None \<Rightarrow> (json_response 400 (JObj [(''error'', JStr ''Invalid JSON'')]), st)
         | Some parsed \<Rightarrow>
             (case (get_prop parsed ''sessionId'', get_prop parsed ''xml'') of
                (Some sessionId, Some x) \<Rightarrow>
                  if \<not> truthy sessionId then
                    (json_response 400 (JObj [(''error'', JStr ''sessionId required'')]), st)
                  else
                    (let (k, n) = to_key sessionId (nextRef st);
                         (v, store') = setState now k x (stateStore st);
                         st' = st\<lparr>stateStore := store', nextRef := n\<rparr>
                     in if printable sessionId then
                          (json_response 200
                             (JObj [(''success'', JBool True), (''version'', JNum (of_nat v))]),
                           st')
                        else (json_response 400 (JObj [(''error'', JStr ''Invalid JSON'')]), st'))
              | _ \<Rightarrow> (json_response 400 (JObj [(''error'', JStr ''Invalid JSON'')]), st)))
      else (text_response 405 ''Method Not Allowed'', st))"

definition handleRequest ::
  "int \<Rightarrow> request \<Rightarrow> server_state \<Rightarrow> response \<times> server_state"
where
  "handleRequest now req st =
     (if httpMethod req = ''OPTIONS'' then
        (\<lparr>status = 204, headers = cors_headers, payload = NoBody\<rparr>, st)
      else if pathname req = ''/'' \<or> pathname req = ''/index.html'' then
        (serveHtml req, st)
      else if pathname req = ''/api/state'' \<or> pathname req = ''/api/mcp/state'' then
        handleStateApi now req st
      else if pathname req = ''/api/health'' \<or> pathname req = ''/api/mcp/health'' then
        (json_response 200 (JObj [(''status'', JStr ''ok''), (''mcp'', JBool True)]), st)
      else (text_response 404 ''Not Found'', st))"

section \<open>The script of the served page\<close>

text \<open>
  The four variables of the script. \<open>pendingXml\<close> and \<open>lastLoadedXml\<close> start as
  \<open>null\<close>. The versions the script sees are the numbers this server sends.
\<close>

record client =
  currentVersion :: nat
  isDrawioReady :: bool
  pendingXml :: jsval
  lastLoadedXml :: jsval

definition initial_client :: client where
  "initial_client =
     \<lparr>currentVersion = 0, isDrawioReady = False, pendingXml = JNull, lastLoadedXml = JNull\<rparr>"

text \<open>
  What the script sends: the \<open>load\<close> message posted to the editor's frame, and the POST
  of \<open>pushState\<close>.
\<close>

datatype action = PostLoad jsval | FetchPush jsval

definition loadDiagram :: "jsval \<Rightarrow> client \<Rightarrow> client \<times> action list" where
  "loadDiagram x c =
     (if \<not> isDrawioReady c then (c\<lparr>pendingXml := x\<rparr>, [])
      else (c\<lparr>lastLoadedXml := x\<rparr>, [PostLoad x]))"

text \<open>
  \<open>a !== b\<close> is the negation of \<open>strict_eq\<close>. Two arrays or objects are equal only
  when they are the same object, and the two sides compared here never are: one is
  a member of the message just parsed.
\<close>

fun strict_eq :: "jsval \<Rightarrow> jsval \<Rightarrow> bool" where
  "strict_eq (JArr xs) b = False"
| "strict_eq (JObj kvs) b = False"
| "strict_eq a b = (a = b)"

text \<open>\<open>pushState\<close> up to its \<open>fetch\<close>: nothing is sent for an empty session id.\<close>

definition pushState :: "string \<Rightarrow> jsval \<Rightarrow> action list" where
  "pushState sessionId x = (if sessionId = [] then [] else [FetchPush x])"

text \<open>
  The rest of \<open>pushState\<close>, run when the response has come: \<open>None\<close> when \<open>fetch\<close>
  failed or the response was not ok, else \<open>result.version\<close>.
\<close>

definition pushState_done :: "jsval \<Rightarrow> nat option \<Rightarrow> client \<Rightarrow> client" where
  "pushState_done x result c =
     (case result of
        None \<Rightarrow> c
      | Some v \<Rightarrow> c\<lparr>currentVersion := v, lastLoadedXml := x\<rparr>)"

text \<open>
  \<open>handleDrawioMessage\<close>; \<open>None\<close> when reading \<open>msg.event\<close> throws, which is before
  anything is assigned. The updates of the status element are not modelled.
\<close>

definition handleDrawioMessage :: "string \<Rightarrow> jsval \<Rightarrow> client \<Rightarrow> (client \<times> action list) option" where
  "handleDrawioMessage sessionId msg c =
     (case get_prop msg ''event'' of
        None \<Rightarrow> None
      | Some ev \<Rightarrow>
          if ev = JStr ''init'' then
            (let c1 = c\<lparr>isDrawioReady := True\<rparr>
             in if truthy (pendingXml c1) then
                  (let (c2, acts) = loadDiagram (pendingXml c1) c1
                   in Some (c2\<lparr>pendingXml := JNull\<rparr>, acts))
                else Some (c1, []))
          else if ev = JStr ''save'' then
            (case get_prop msg ''xml'' of
               None \<Rightarrow> None
             | Some x \<Rightarrow>
                 if truthy x \<and> \<not> strict_eq x (lastLoadedXml c)
                 then Some (c, pushState sessionId x) else Some (c, []))
          else if ev = JStr ''export'' then
            (case get_prop msg ''data'' of
               None \<Rightarrow> None
             | Some d \<Rightarrow> if truthy d then Some (c, pushState sessionId d) else Some (c, []))
          else if ev = JStr ''autosave'' then
            (case get_prop msg ''xml'' of
               None \<Rightarrow> None
             | Some x \<Rightarrow>
                 if truthy x \<and> \<not> strict_eq x (lastLoadedXml c)
                 then Some (c, pushState sessionId x) else Some (c, []))
          else Some (c, []))"

text \<open>
  The \<open>message\<close> listener: \<open>origin\<close> is \<open>event.origin\<close> and \<open>data\<close> the outcome of
  \<open>JSON.parse(event.data)\<close>. Whatever throws inside the \<open>try\<close> is dropped.
\<close>

definition onMessage :: "string \<Rightarrow> string \<Rightarrow> jsval option \<Rightarrow> client \<Rightarrow> client \<times> action list" where
  "onMessage sessionId origin data c =
     (if origin \<noteq> ''https://embed.diagrams.net'' then (c, [])
      else
        (case data of
           None \<Rightarrow> (c, [])
         | Some msg \<Rightarrow>
             (case handleDrawioMessage sessionId msg c of
                None \<Rightarrow> (c, [])
              | Some r \<Rightarrow> r)))"

text \<open>
  \<open>pollState\<close> from the point where the response has been read: \<open>x\<close> is \<open>state.xml\<close>
  and \<open>v\<close> is \<open>state.version\<close>. (With an empty session id, or a failed fetch, or a
  response that is not ok, the function has returned before.)
\<close>

definition pollState_done :: "jsval \<Rightarrow> nat \<Rightarrow> client \<Rightarrow> client \<times> action list" where
  "pollState_done x v c =
     (if v \<noteq> 0 \<and> v > currentVersion c \<and> truthy x
      then loadDiagram x (c\<lparr>currentVersion := v\<rparr>)
      else (c, []))"

text \<open>The events of the page, one handler run each, and a run of the script over them.\<close>

datatype event =
    Message string "jsval option"
  | PollDone jsval nat
  | PushDone jsval "nat option"

fun client_step :: "string \<Rightarrow> client \<Rightarrow> event \<Rightarrow> client \<times> action list" where
  "client_step sessionId c (Message origin data) = onMessage sessionId origin data c"
| "client_step sessionId c (PollDone x v) = pollState_done x v c"
| "client_step sessionId c (PushDone x result) = (pushState_done x result c, [])"

fun client_run :: "string \<Rightarrow> client \<Rightarrow> event list \<Rightarrow> client \<times> action list" where
  "client_run sessionId c [] = (c, [])"
| "client_run sessionId c (e # es) =
     (let (c1, acts1) = client_step sessionId c e;
          (c2, acts2) = client_run sessionId c1 es
      in (c2, acts1 @ acts2))"


text \<open>
  The editor's \<open>init\<close>: a message from the editor's origin that parses and whose
  \<open>event\<close> is the string \<open>init\<close>.
\<close>

fun is_init :: "event \<Rightarrow> bool" where
  "is_init (Message origin (Some msg)) =
     (origin = ''https://embed.diagrams.net'' \<and> get_prop msg ''event'' = Some (JStr ''init''))"
| "is_init e = False"

text \<open>
  The XML that arrives during a run: the payloads of the polls that pass the test of
  \<open>pollState\<close> and are handed to \<open>loadDiagram\<close>, in order.
\<close>

fun arrivals :: "string \<Rightarrow> client \<Rightarrow> event list \<Rightarrow> jsval list" where
  "arrivals sessionId c [] = []"
| "arrivals sessionId c (e # es) =
     (case e of
        PollDone x v \<Rightarrow> if v \<noteq> 0 \<and> v > currentVersion c \<and> truthy x then [x] else []
      | _ \<Rightarrow> [])
     @ arrivals sessionId (fst (client_step sessionId c e)) es"

section \<open>Versions\<close>

lemma setState_version: "fst (setState now k x st) = priorVersion st k + 1"
  by (simp add: setState_def priorVersion_def Let_def split: option.split)

lemma setState_lookup:
  "map_of (snd (setState now k x st)) k' =
     (if k' = k
      then Some \<lparr>xml = x, version = priorVersion st k + 1, lastUpdated = now\<rparr>
      else map_of st k')"
  by (simp add: setState_def priorVersion_def Let_def update_conv' split: option.split)

lemma priorVersion_setState:
  "priorVersion (snd (setState now k x st)) k' =
     (if k' = k then priorVersion st k + 1 else priorVersion st k')"
  by (simp add: priorVersion_def setState_lookup)

lemma setState_calls_versions:
  "returned_to k (fst (setState_calls st ws)) =
     [priorVersion st k + 1 ..< priorVersion st k + 1 + writes_to k ws]
   \<and> priorVersion (snd (setState_calls st ws)) k = priorVersion st k + writes_to k ws"
proof (induction ws arbitrary: st)
  case Nil
  show ?case by (simp add: returned_to_def writes_to_def)
next
  case (Cons w ws)
  obtain now k' x where w: "w = (now, k', x)" by (cases w) auto
  obtain v st1 where s: "setState now k' x st = (v, st1)" by (cases "setState now k' x st") auto
  obtain kvs st2 where r: "setState_calls st1 ws = (kvs, st2)"
    by (cases "setState_calls st1 ws") auto
  have v: "v = priorVersion st k' + 1" using setState_version [of now k' x st] s by simp
  have p1: "priorVersion st1 k = (if k = k' then priorVersion st k' + 1 else priorVersion st k)"
    using priorVersion_setState [of now k' x st k] s by simp
  from Cons.IH [of st1] r
  have ih: "returned_to k kvs = [priorVersion st1 k + 1 ..< priorVersion st1 k + 1 + writes_to k ws]"
    and ih2: "priorVersion st2 k = priorVersion st1 k + writes_to k ws"
    by simp_all
  show ?case
  proof (cases "k' = k")
    case True
    have "returned_to k ((k', v) # kvs) = v # returned_to k kvs"
      using True by (simp add: returned_to_def)
    moreover have "writes_to k (w # ws) = Suc (writes_to k ws)"
      using True w by (simp add: writes_to_def)
    ultimately show ?thesis
      using w s r v p1 ih ih2 True by (simp add: upt_rec [of "Suc (priorVersion st k)"])
  next
    case False
    have "returned_to k ((k', v) # kvs) = returned_to k kvs"
      using False by (simp add: returned_to_def)
    moreover have "writes_to k (w # ws) = writes_to k ws"
      using False w by (simp add: writes_to_def)
    ultimately show ?thesis
      using w s r p1 ih ih2 False by simp
  qed
qed

lemma setState_calls_record:
  "(map_of (snd (setState_calls st ws)) k = None) = (map_of st k = None \<and> writes_to k ws = 0)"
proof (induction ws arbitrary: st)
  case Nil
  show ?case by (simp add: writes_to_def)
next
  case (Cons w ws)
  obtain now k' x where w: "w = (now, k', x)" by (cases w) auto
  have "(map_of (snd (setState_calls (snd (setState now k' x st)) ws)) k = None) =
        (map_of (snd (setState now k' x st)) k = None \<and> writes_to k ws = 0)"
    by (rule Cons.IH)
  then show ?case
    using w by (auto simp: setState_lookup writes_to_def split: prod.splits)
qed

text \<open>
  Claim C1. Take any session key \<open>k\<close>, a store \<open>st\<close> with no record for it, and any
  sequence \<open>ws\<close> of calls of \<open>setState\<close> (to \<open>k\<close> and, in between, to other sessions).
  The versions returned by the calls to \<open>k\<close> are \<open>1, 2, ..., n\<close> in call order, \<open>n\<close>
  the number of those calls. Afterwards the store has no record of \<open>k\<close> exactly when
  \<open>n = 0\<close>, and otherwise the record's version is \<open>n\<close>, the last version returned.
  From any store \<open>st'\<close> at all, one call returns the version on record plus one (0 when
  there is no record) and stores the record with that version: the version goes up by
  exactly one per write, so it never decreases and never skips a value.
\<close>

theorem versions_count_from_one:
  "getState k st = None \<Longrightarrow>
     returned_to k (fst (setState_calls st ws)) = [1 ..< Suc (writes_to k ws)]
   \<and> (case getState k (snd (setState_calls st ws)) of
        None \<Rightarrow> writes_to k ws = 0
      | Some s \<Rightarrow>
          version s = writes_to k ws
          \<and> version s = last (returned_to k (fst (setState_calls st ws))))
   \<and> fst (setState now k x st') = priorVersion st' k + 1
   \<and> getState k (snd (setState now k x st')) =
       Some \<lparr>xml = x, version = priorVersion st' k + 1, lastUpdated = now\<rparr>"
proof -
  assume fresh: "getState k st = None"
  then have p0: "priorVersion st k = 0" by (simp add: getState_def priorVersion_def)
  let ?n = "writes_to k ws"
  let ?final = "snd (setState_calls st ws)"
  have ret: "returned_to k (fst (setState_calls st ws)) = [1 ..< Suc ?n]"
    using setState_calls_versions [of k st ws] p0 by simp
  have pv: "priorVersion ?final k = ?n"
    using setState_calls_versions [of k st ws] p0 by simp
  have stored: "case getState k ?final of
        None \<Rightarrow> ?n = 0
      | Some s \<Rightarrow> version s = ?n \<and> version s = last (returned_to k (fst (setState_calls st ws)))"
  proof (cases "map_of ?final k")
    case None
    then show ?thesis using setState_calls_record [of st ws k] by (simp add: getState_def)
  next
    case (Some s)
    then have pos: "?n \<noteq> 0"
      using setState_calls_record [of st ws k] fresh by (auto simp: getState_def)
    have vs: "version s = ?n" using pv Some by (simp add: priorVersion_def)
    have "last [1 ..< Suc ?n] = ?n" using pos by simp
    then show ?thesis using Some vs ret by (simp add: getState_def)
  qed
  show ?thesis
    using ret stored by (simp add: setState_version getState_def setState_lookup)
qed

text \<open>
  The theorem at the writes \<open>A\<close> to session \<open>s\<close>, \<open>X\<close> to session \<open>t\<close>, \<open>B\<close> to
  session \<open>s\<close>, on the empty store: the writers of \<open>s\<close> are given 1 and 2.
\<close>

theorem versions_count_from_one_witness:
  "getState (KPrim (JStr ''s'')) [] = None
   \<and> returned_to (KPrim (JStr ''s''))
        (fst (setState_calls []
           [(10, KPrim (JStr ''s''), JStr ''A''),
            (20, KPrim (JStr ''t''), JStr ''X''),
            (30, KPrim (JStr ''s''), JStr ''B'')])) = [1, 2]"
proof -
  have h: "getState (KPrim (JStr ''s'')) [] = None" by (simp add: getState_def)
  have n: "writes_to (KPrim (JStr ''s''))
           [(10, KPrim (JStr ''s''), JStr ''A''),
            (20, KPrim (JStr ''t''), JStr ''X''),
            (30, KPrim (JStr ''s''), JStr ''B'')] = 2"
    by (simp add: writes_to_def)
  have u: "[1 ..< Suc 2] = [1, 2]" by (simp add: upt_rec)
  from versions_count_from_one [OF h]
  have "returned_to (KPrim (JStr ''s''))
        (fst (setState_calls []
           [(10, KPrim (JStr ''s''), JStr ''A''),
            (20, KPrim (JStr ''t''), JStr ''X''),
            (30, KPrim (JStr ''s''), JStr ''B'')])) = [1, 2]"
    by (simp only: n u)
  with h show ?thesis by (rule conjI)
qed

section \<open>The handlers of the state API, case by case\<close>

lemma toISOString_nonempty: "toISOString t \<noteq> []"
  by (simp add: toISOString_def Let_def split: prod.splits)

lemma state_path_GET:
  "httpMethod req = ''GET'' \<Longrightarrow> pathname req = ''/api/state'' \<or> pathname req = ''/api/mcp/state'' \<Longrightarrow>
   handleRequest now req st = handleStateApi now req st"
  by (auto simp: handleRequest_def)

lemma state_path_POST:
  "httpMethod req = ''POST'' \<Longrightarrow> pathname req = ''/api/state'' \<or> pathname req = ''/api/mcp/state'' \<Longrightarrow>
   handleRequest now req st = handleStateApi now req st"
  by (auto simp: handleRequest_def)

lemma handleStateApi_GET_missing:
  "httpMethod req = ''GET'' \<Longrightarrow>
   map_of (searchParams req) ''sessionId'' = None \<or> map_of (searchParams req) ''sessionId'' = Some [] \<Longrightarrow>
   handleStateApi now req st =
     (json_response 400 (JObj [(''error'', JStr ''sessionId required'')]), st)"
  by (auto simp: handleStateApi_def)

lemma handleStateApi_GET_absent:
  "httpMethod req = ''GET'' \<Longrightarrow> map_of (searchParams req) ''sessionId'' = Some s \<Longrightarrow> s \<noteq> [] \<Longrightarrow>
   map_of (stateStore st) (KPrim (JStr s)) = None \<Longrightarrow>
   handleStateApi now req st =
     (json_response 200
        (JObj [(''xml'', JNull), (''version'', JNum 0), (''lastUpdated'', JNull)]), st)"
  by (simp add: handleStateApi_def js_or_def)

lemma handleStateApi_GET_present:
  "httpMethod req = ''GET'' \<Longrightarrow> map_of (searchParams req) ''sessionId'' = Some s \<Longrightarrow> s \<noteq> [] \<Longrightarrow>
   map_of (stateStore st) (KPrim (JStr s)) = Some r \<Longrightarrow>
   handleStateApi now req st =
     (json_response 200
        (JObj [(''xml'', js_or (xml r) JNull),
               (''version'', JNum (of_nat (version r))),
               (''lastUpdated'', JStr (toISOString (lastUpdated r)))]), st)"
  by (simp add: handleStateApi_def js_or_def toISOString_nonempty)

lemma handleStateApi_POST_unparsable:
  "httpMethod req = ''POST'' \<Longrightarrow> parsedBody req = None \<Longrightarrow>
   handleStateApi now req st = (json_response 400 (JObj [(''error'', JStr ''Invalid JSON'')]), st)"
  by (simp add: handleStateApi_def)

lemma handleStateApi_POST_throws:
  "httpMethod req = ''POST'' \<Longrightarrow> parsedBody req = Some j \<Longrightarrow> get_prop j ''sessionId'' = None \<Longrightarrow>
   handleStateApi now req st = (json_response 400 (JObj [(''error'', JStr ''Invalid JSON'')]), st)"
  by (simp add: handleStateApi_def)

lemma get_prop_None: "(get_prop j n = None) = (j = JNull \<or> j = JUndefined)"
  by (cases j) auto

lemma get_prop_total: "get_prop j n \<noteq> None \<Longrightarrow> get_prop j m \<noteq> None"
  by (cases j) auto

lemma handleStateApi_POST_falsy:
  "httpMethod req = ''POST'' \<Longrightarrow> parsedBody req = Some j \<Longrightarrow> get_prop j ''sessionId'' = Some sid \<Longrightarrow>
   \<not> truthy sid \<Longrightarrow>
   handleStateApi now req st = (json_response 400 (JObj [(''error'', JStr ''sessionId required'')]), st)"
  using get_prop_total [of j "''sessionId''" "''xml''"]
  by (auto simp: handleStateApi_def split: option.splits)

lemma handleStateApi_POST_write:
  "httpMethod req = ''POST'' \<Longrightarrow> parsedBody req = Some j \<Longrightarrow> get_prop j ''sessionId'' = Some sid \<Longrightarrow>
   get_prop j ''xml'' = Some x \<Longrightarrow> truthy sid \<Longrightarrow>
   handleStateApi now req st =
     (if printable sid then
        json_response 200
          (JObj [(''success'', JBool True),
                 (''version'', JNum (of_nat (fst (setState now (fst (to_key sid (nextRef st))) x (stateStore st)))))])
      else json_response 400 (JObj [(''error'', JStr ''Invalid JSON'')]),
      st\<lparr>stateStore := snd (setState now (fst (to_key sid (nextRef st))) x (stateStore st)),
         nextRef := snd (to_key sid (nextRef st))\<rparr>)"
  by (simp add: handleStateApi_def Let_def split: prod.splits)

lemma handleStateApi_pathname:
  "handleStateApi now (req\<lparr>pathname := p\<rparr>) st = handleStateApi now (req\<lparr>pathname := q\<rparr>) st"
  by (simp add: handleStateApi_def)

section \<open>The two names of each path\<close>

text \<open>
  Claim C8. For every request (any method, query and body), every clock reading and
  every state of the server, the request sent to \<open>/api/state\<close> and the same request
  sent to \<open>/api/mcp/state\<close> get the same response and leave the same state, and
  likewise for \<open>/api/health\<close> and \<open>/api/mcp/health\<close>.
\<close>

theorem aliases_agree:
  "handleRequest now (req\<lparr>pathname := ''/api/state''\<rparr>) st =
     handleRequest now (req\<lparr>pathname := ''/api/mcp/state''\<rparr>) st
   \<and> handleRequest now (req\<lparr>pathname := ''/api/health''\<rparr>) st =
     handleRequest now (req\<lparr>pathname := ''/api/mcp/health''\<rparr>) st"
  using handleStateApi_pathname [where p = "''/api/state''" and q = "''/api/mcp/state''"]
  by (simp add: handleRequest_def)

section \<open>Reading a session\<close>

text \<open>
  Claim C2, amended. For every session id other than the empty string: when the store
  has no record for it (\<open>getState\<close> gives the absent result, as it does after any
  sequence of writes none of which went to this session), a GET of either state path with
  that \<open>sessionId\<close> is answered 200 with the body
  \<open>{xml: null, version: 0, lastUpdated: null}\<close> exactly, and the state of the server is
  as before. \<open>getState\<close> and the handler are total functions: the read cannot fail.
\<close>

theorem read_of_unwritten_session:
  "s \<noteq> [] \<Longrightarrow> getState (KPrim (JStr s)) (stateStore st) = None \<Longrightarrow>
   httpMethod req = ''GET'' \<Longrightarrow>
   pathname req = ''/api/state'' \<or> pathname req = ''/api/mcp/state'' \<Longrightarrow>
   map_of (searchParams req) ''sessionId'' = Some s \<Longrightarrow>
     handleRequest now req st =
       (json_response 200
          (JObj [(''xml'', JNull), (''version'', JNum 0), (''lastUpdated'', JNull)]), st)
   \<and> (writes_to (KPrim (JStr s)) ws = 0 \<longrightarrow>
        getState (KPrim (JStr s)) (snd (setState_calls [] ws)) = None)"
proof -
  assume s: "s \<noteq> []" and absent: "getState (KPrim (JStr s)) (stateStore st) = None"
    and m: "httpMethod req = ''GET''"
    and p: "pathname req = ''/api/state'' \<or> pathname req = ''/api/mcp/state''"
    and q: "map_of (searchParams req) ''sessionId'' = Some s"
  have "handleRequest now req st = handleStateApi now req st"
    using m p by (rule state_path_GET)
  moreover have "handleStateApi now req st =
       (json_response 200
          (JObj [(''xml'', JNull), (''version'', JNum 0), (''lastUpdated'', JNull)]), st)"
    using m q s absent by (simp add: handleStateApi_GET_absent getState_def)
  moreover have "writes_to (KPrim (JStr s)) ws = 0 \<longrightarrow>
        getState (KPrim (JStr s)) (snd (setState_calls [] ws)) = None"
    using setState_calls_record [of "[]" ws "KPrim (JStr s)"] by (simp add: getState_def)
  ultimately show ?thesis by simp
qed

text \<open>The theorem at the session id \<open>abc\<close> and the empty store.\<close>

theorem read_of_unwritten_session_witness:
  "''abc'' \<noteq> [] \<and> getState (KPrim (JStr ''abc'')) [] = None
   \<and> handleRequest 0
       \<lparr>httpMethod = ''GET'', pathname = ''/api/mcp/state'',
        searchParams = [(''sessionId'', ''abc'')], parsedBody = None\<rparr>
       \<lparr>stateStore = [], nextRef = 0\<rparr> =
     (json_response 200
        (JObj [(''xml'', JNull), (''version'', JNum 0), (''lastUpdated'', JNull)]),
      \<lparr>stateStore = [], nextRef = 0\<rparr>)"
proof -
  have h1: "''abc'' \<noteq> []" by simp
  have h2: "getState (KPrim (JStr ''abc'')) (stateStore \<lparr>stateStore = [], nextRef = 0\<rparr>) = None"
    by (simp add: getState_def)
  have h3: "httpMethod \<lparr>httpMethod = ''GET'', pathname = ''/api/mcp/state'',
        searchParams = [(''sessionId'', ''abc'')], parsedBody = None\<rparr> = ''GET''" by simp
  have h4: "pathname \<lparr>httpMethod = ''GET'', pathname = ''/api/mcp/state'',
        searchParams = [(''sessionId'', ''abc'')], parsedBody = None\<rparr> = ''/api/state''
      \<or> pathname \<lparr>httpMethod = ''GET'', pathname = ''/api/mcp/state'',
        searchParams = [(''sessionId'', ''abc'')], parsedBody = None\<rparr> = ''/api/mcp/state''" by simp
  have h5: "map_of (searchParams \<lparr>httpMethod = ''GET'', pathname = ''/api/mcp/state'',
        searchParams = [(''sessionId'', ''abc'')], parsedBody = None\<rparr>) ''sessionId'' = Some ''abc''"
    by simp
  from read_of_unwritten_session [OF h1 h2 h3 h4 h5]
  have "handleRequest 0
       \<lparr>httpMethod = ''GET'', pathname = ''/api/mcp/state'',
        searchParams = [(''sessionId'', ''abc'')], parsedBody = None\<rparr>
       \<lparr>stateStore = [], nextRef = 0\<rparr> =
     (json_response 200
        (JObj [(''xml'', JNull), (''version'', JNum 0), (''lastUpdated'', JNull)]),
      \<lparr>stateStore = [], nextRef = 0\<rparr>)"
    by (rule conjunct1)
  moreover have "getState (KPrim (JStr ''abc'')) [] = None" by (simp add: getState_def)
  ultimately show ?thesis using h1 by simp
qed

text \<open>
  Claim C2 as stated, for every session id, fails at the empty id: nothing was ever
  written to it, and the GET with \<open>sessionId=\<close> is answered 400, not 200.
\<close>

theorem read_with_empty_id_counterexample:
  "getState (KPrim (JStr '''')) [] = None
   \<and> handleRequest 0
       \<lparr>httpMethod = ''GET'', pathname = ''/api/state'',
        searchParams = [(''sessionId'', '''')], parsedBody = None\<rparr>
       \<lparr>stateStore = [], nextRef = 0\<rparr> =
     (json_response 400 (JObj [(''error'', JStr ''sessionId required'')]),
      \<lparr>stateStore = [], nextRef = 0\<rparr>)
   \<and> status (fst (handleRequest 0
       \<lparr>httpMethod = ''GET'', pathname = ''/api/state'',
        searchParams = [(''sessionId'', '''')], parsedBody = None\<rparr>
       \<lparr>stateStore = [], nextRef = 0\<rparr>)) \<noteq> 200"
  by (simp add: getState_def handleRequest_def handleStateApi_def json_response_def)

text \<open>
  Claim C3, amended. For every session id \<open>s\<close> other than the empty string and every
  string \<open>x\<close>: after \<open>setState\<close> has written \<open>x\<close> to \<open>s\<close> at the instant \<open>t\<close>,
  a GET of either state path with that \<open>sessionId\<close> is answered 200, the version is the
  stored one (the version before the write plus one), \<open>lastUpdated\<close> is the ISO-8601
  string of \<open>t\<close>, and \<open>xml\<close> is the string \<open>x\<close> itself when \<open>x\<close> is not empty and
  \<open>null\<close> when it is; the state is as before. In particular after \<open>A\<close> and then \<open>B\<close>
  were written to a session that had no record, the answer has \<open>xml\<close> \<open>B\<close> and
  version 2.
\<close>

theorem read_after_write:
  "s \<noteq> [] \<Longrightarrow> httpMethod req = ''GET'' \<Longrightarrow>
   pathname req = ''/api/state'' \<or> pathname req = ''/api/mcp/state'' \<Longrightarrow>
   map_of (searchParams req) ''sessionId'' = Some s \<Longrightarrow>
   stateStore st = snd (setState t (KPrim (JStr s)) (JStr x) store0) \<Longrightarrow>
     handleRequest now req st =
       (json_response 200
          (JObj [(''xml'', if x = [] then JNull else JStr x),
                 (''version'', JNum (of_nat (priorVersion store0 (KPrim (JStr s)) + 1))),
                 (''lastUpdated'', JStr (toISOString t))]), st)
   \<and> (x = ''B'' \<and> getState (KPrim (JStr s)) store1 = None
        \<and> store0 = snd (setState t' (KPrim (JStr s)) (JStr ''A'') store1) \<longrightarrow>
        handleRequest now req st =
          (json_response 200
             (JObj [(''xml'', JStr ''B''), (''version'', JNum 2),
                    (''lastUpdated'', JStr (toISOString t))]), st))"
proof -
  assume s: "s \<noteq> []" and m: "httpMethod req = ''GET''"
    and p: "pathname req = ''/api/state'' \<or> pathname req = ''/api/mcp/state''"
    and q: "map_of (searchParams req) ''sessionId'' = Some s"
    and w: "stateStore st = snd (setState t (KPrim (JStr s)) (JStr x) store0)"
  let ?k = "KPrim (JStr s)"
  have rec: "map_of (stateStore st) ?k =
      Some \<lparr>xml = JStr x, version = priorVersion store0 ?k + 1, lastUpdated = t\<rparr>"
    using w by (simp add: setState_lookup)
  have "handleRequest now req st = handleStateApi now req st"
    using m p by (rule state_path_GET)
  also have "\<dots> = (json_response 200
          (JObj [(''xml'', js_or (JStr x) JNull),
                 (''version'', JNum (of_nat (priorVersion store0 ?k + 1))),
                 (''lastUpdated'', JStr (toISOString t))]), st)"
    using handleStateApi_GET_present [OF m q s rec] by simp
  finally have main: "handleRequest now req st =
       (json_response 200
          (JObj [(''xml'', if x = [] then JNull else JStr x),
                 (''version'', JNum (of_nat (priorVersion store0 ?k + 1))),
                 (''lastUpdated'', JStr (toISOString t))]), st)"
    by (simp add: js_or_def)
  have "priorVersion (snd (setState t' ?k (JStr ''A'') store1)) ?k = 1"
    if "getState ?k store1 = None"
    using that by (simp add: priorVersion_setState) (simp add: priorVersion_def getState_def)
  then show ?thesis using main by auto
qed

text \<open>The theorem at the writes \<open>A\<close>, \<open>B\<close> to the session \<open>s\<close> on the empty store.\<close>

theorem read_after_write_witness:
  "''s'' \<noteq> []
   \<and> handleRequest 30
       \<lparr>httpMethod = ''GET'', pathname = ''/api/state'',
        searchParams = [(''sessionId'', ''s'')], parsedBody = None\<rparr>
       \<lparr>stateStore =
          snd (setState 20 (KPrim (JStr ''s'')) (JStr ''B'')
            (snd (setState 10 (KPrim (JStr ''s'')) (JStr ''A'') []))),
        nextRef = 0\<rparr> =
     (json_response 200
        (JObj [(''xml'', JStr ''B''), (''version'', JNum 2),
               (''lastUpdated'', JStr (toISOString 20))]),
      \<lparr>stateStore =
          snd (setState 20 (KPrim (JStr ''s'')) (JStr ''B'')
            (snd (setState 10 (KPrim (JStr ''s'')) (JStr ''A'') []))),
        nextRef = 0\<rparr>)"
proof -
  let ?req = "\<lparr>httpMethod = ''GET'', pathname = ''/api/state'',
        searchParams = [(''sessionId'', ''s'')], parsedBody = None\<rparr>"
  let ?store0 = "snd (setState 10 (KPrim (JStr ''s'')) (JStr ''A'') [])"
  let ?st = "\<lparr>stateStore = snd (setState 20 (KPrim (JStr ''s'')) (JStr ''B'') ?store0),
        nextRef = 0\<rparr>"
  have h1: "''s'' \<noteq> []" by simp
  have h2: "httpMethod ?req = ''GET''" by simp
  have h3: "pathname ?req = ''/api/state'' \<or> pathname ?req = ''/api/mcp/state''" by simp
  have h4: "map_of (searchParams ?req) ''sessionId'' = Some ''s''" by simp
  have h5: "stateStore ?st = snd (setState 20 (KPrim (JStr ''s'')) (JStr ''B'') ?store0)" by simp
  have h6: "''B'' = ''B'' \<and> getState (KPrim (JStr ''s'')) [] = None \<and> ?store0 = ?store0"
    by (simp add: getState_def)
  from read_after_write [OF h1 h2 h3 h4 h5, THEN conjunct2, rule_format, OF h6]
  have "handleRequest 30 ?req ?st =
     (json_response 200
        (JObj [(''xml'', JStr ''B''), (''version'', JNum 2),
               (''lastUpdated'', JStr (toISOString 20))]), ?st)" .
  with h1 show ?thesis by (rule conjI)
qed

text \<open>
  Claim C3 as stated fails at the empty string: the write of \<open>""\<close> to session
  \<open>s\<close> succeeds with version 1, and the GET then reports \<open>xml: null\<close>, because
  \<open>state?.xml || null\<close> takes the empty string for absent.
\<close>

theorem read_after_empty_write_counterexample:
  "fst (setState 10 (KPrim (JStr ''s'')) (JStr '''') []) = 1
   \<and> handleRequest 20
       \<lparr>httpMethod = ''GET'', pathname = ''/api/state'',
        searchParams = [(''sessionId'', ''s'')], parsedBody = None\<rparr>
       \<lparr>stateStore = snd (setState 10 (KPrim (JStr ''s'')) (JStr '''') []), nextRef = 0\<rparr> =
     (json_response 200
        (JObj [(''xml'', JNull), (''version'', JNum 1),
               (''lastUpdated'', JStr (toISOString 10))]),
      \<lparr>stateStore = snd (setState 10 (KPrim (JStr ''s'')) (JStr '''') []), nextRef = 0\<rparr>)"
  by (simp add: setState_def handleRequest_def handleStateApi_def js_or_def toISOString_nonempty)

section \<open>Rejected writes\<close>

text \<open>
  Claim C4, amended. For every POST to either state path: when the body is not
  parseable JSON, or parses to \<open>null\<close>, the answer is 400 \<open>{error: "Invalid JSON"}\<close>;
  when the parsed body is any other value and its \<open>sessionId\<close> is absent (a JSON object
  without that member, a number, a string, an array) or falsy, the answer is 400
  \<open>{error: "sessionId required"}\<close>. In each of these cases the state of the server is
  left as it was: no record is created or changed and no version is assigned.
\<close>

theorem rejected_post_changes_nothing:
  "httpMethod req = ''POST'' \<Longrightarrow>
   pathname req = ''/api/state'' \<or> pathname req = ''/api/mcp/state'' \<Longrightarrow>
     (parsedBody req = None \<or> parsedBody req = Some JNull \<longrightarrow>
        handleRequest now req st =
          (json_response 400 (JObj [(''error'', JStr ''Invalid JSON'')]), st))
   \<and> (parsedBody req = Some j \<and> get_prop j ''sessionId'' = Some sid \<and> \<not> truthy sid \<longrightarrow>
        handleRequest now req st =
          (json_response 400 (JObj [(''error'', JStr ''sessionId required'')]), st))
   \<and> (parsedBody req = Some (JObj members) \<and> map_of members ''sessionId'' = None \<longrightarrow>
        handleRequest now req st =
          (json_response 400 (JObj [(''error'', JStr ''sessionId required'')]), st))"
proof -
  assume m: "httpMethod req = ''POST''"
    and p: "pathname req = ''/api/state'' \<or> pathname req = ''/api/mcp/state''"
  have r: "handleRequest now req st = handleStateApi now req st"
    using m p by (rule state_path_POST)
  have a: "parsedBody req = None \<or> parsedBody req = Some JNull \<longrightarrow>
        handleStateApi now req st =
          (json_response 400 (JObj [(''error'', JStr ''Invalid JSON'')]), st)"
    using m handleStateApi_POST_unparsable [of req now st]
      handleStateApi_POST_throws [of req JNull now st] by auto
  have b: "parsedBody req = Some j \<and> get_prop j ''sessionId'' = Some sid \<and> \<not> truthy sid \<longrightarrow>
        handleStateApi now req st =
          (json_response 400 (JObj [(''error'', JStr ''sessionId required'')]), st)"
    using m handleStateApi_POST_falsy [of req j sid now st] by blast
  have c: "parsedBody req = Some (JObj members) \<and> map_of members ''sessionId'' = None \<longrightarrow>
        handleStateApi now req st =
          (json_response 400 (JObj [(''error'', JStr ''sessionId required'')]), st)"
    using m handleStateApi_POST_falsy [of req "JObj members" JUndefined now st] by simp
  show ?thesis using r a b c by simp
qed

text \<open>The theorem at the body \<open>{"xml": "A"}\<close>.\<close>

theorem rejected_post_changes_nothing_witness:
  "handleRequest 0
       \<lparr>httpMethod = ''POST'', pathname = ''/api/state'', searchParams = [],
        parsedBody = Some (JObj [(''xml'', JStr ''A'')])\<rparr>
       \<lparr>stateStore = [], nextRef = 0\<rparr> =
     (json_response 400 (JObj [(''error'', JStr ''sessionId required'')]),
      \<lparr>stateStore = [], nextRef = 0\<rparr>)"
proof -
  let ?req = "\<lparr>httpMethod = ''POST'', pathname = ''/api/state'', searchParams = [],
        parsedBody = Some (JObj [(''xml'', JStr ''A'')])\<rparr>"
  have h1: "httpMethod ?req = ''POST''" by simp
  have h2: "pathname ?req = ''/api/state'' \<or> pathname ?req = ''/api/mcp/state''" by simp
  have h3: "parsedBody ?req = Some (JObj [(''xml'', JStr ''A'')])
            \<and> map_of [(''xml'', JStr ''A'')] ''sessionId'' = None" by simp
  from rejected_post_changes_nothing [OF h1 h2, THEN conjunct2, THEN conjunct2, rule_format, OF h3]
  show ?thesis .
qed

text \<open>
  Claim C4 as stated fails at the body \<open>null\<close>: it is parseable JSON and has no
  \<open>sessionId\<close>, and the answer is \<open>{error: "Invalid JSON"}\<close>, not
  \<open>{error: "sessionId required"}\<close>: destructuring \<open>null\<close> throws inside the \<open>try\<close>.
\<close>

theorem null_body_counterexample:
  "handleRequest 0
       \<lparr>httpMethod = ''POST'', pathname = ''/api/state'', searchParams = [],
        parsedBody = Some JNull\<rparr>
       \<lparr>stateStore = [], nextRef = 0\<rparr> =
     (json_response 400 (JObj [(''error'', JStr ''Invalid JSON'')]),
      \<lparr>stateStore = [], nextRef = 0\<rparr>)
   \<and> payload (fst (handleRequest 0
       \<lparr>httpMethod = ''POST'', pathname = ''/api/state'', searchParams = [],
        parsedBody = Some JNull\<rparr>
       \<lparr>stateStore = [], nextRef = 0\<rparr>)) \<noteq> Json (JObj [(''error'', JStr ''sessionId required'')])"
  by (simp add: handleRequest_def handleStateApi_def json_response_def)

text \<open>
  A write can also be answered 400 after it has been stored: the session id of this body
  is an object with a member \<open>toString\<close>, the log line of \<open>setState\<close> throws on it,
  and the \<open>catch\<close> answers \<open>Invalid JSON\<close>. The bodies of claim C4 are not of
  this kind.
\<close>

lemma post_unprintable_id_example:
  "handleRequest 7
     \<lparr>httpMethod = ''POST'', pathname = ''/api/state'', searchParams = [],
      parsedBody =
        Some (JObj [(''sessionId'', JObj [(''toString'', JNum 1)]), (''xml'', JStr ''A'')])\<rparr>
     \<lparr>stateStore = [], nextRef = 0\<rparr> =
   (json_response 400 (JObj [(''error'', JStr ''Invalid JSON'')]),
    \<lparr>stateStore =
       [(KRef 0 (JObj [(''toString'', JNum 1)]),
         \<lparr>xml = JStr ''A'', version = 1, lastUpdated = 7\<rparr>)],
     nextRef = 1\<rparr>)"
  by (simp add: handleRequest_def handleStateApi_def setState_def)

section \<open>The empty session id\<close>

lemma to_key_truthy: "truthy sid \<Longrightarrow> fst (to_key sid n) \<noteq> KPrim (JStr [])"
  by (cases sid) auto

lemma handleStateApi_empty_id:
  "map_of (stateStore (snd (handleStateApi now req st))) (KPrim (JStr [])) =
   map_of (stateStore st) (KPrim (JStr []))"
proof (cases "httpMethod req = ''POST''")
  case False
  then show ?thesis by (simp add: handleStateApi_def Let_def)
next
  case post: True
  show ?thesis
  proof (cases "parsedBody req")
    case None
    then show ?thesis using post by (simp add: handleStateApi_POST_unparsable)
  next
    case (Some j)
    show ?thesis
    proof (cases "get_prop j ''sessionId''")
      case None
      then show ?thesis using post Some by (simp add: handleStateApi_POST_throws)
    next
      case sid: (Some sid)
      then obtain x where x: "get_prop j ''xml'' = Some x"
        using get_prop_total [of j "''sessionId''" "''xml''"] by auto
      show ?thesis
      proof (cases "truthy sid")
        case False
        then show ?thesis using post Some sid by (simp add: handleStateApi_POST_falsy)
      next
        case True
        then show ?thesis
          using post Some sid x to_key_truthy [of sid "nextRef st"]
          by (simp add: handleStateApi_POST_write setState_lookup)
      qed
    qed
  qed
qed

text \<open>
  Claim C10. A GET of a state path with \<open>sessionId\<close> the empty string, and a POST
  to a state path whose parsed body has \<open>sessionId\<close> the empty string, are both
  answered 400 \<open>{error: "sessionId required"}\<close> and leave the state as it was. No
  request at all changes what the store holds for the empty id, although \<open>setState\<close>
  itself accepts the empty id and stores the record.
\<close>

theorem empty_id_is_missing:
  "httpMethod g = ''GET'' \<Longrightarrow>
   pathname g = ''/api/state'' \<or> pathname g = ''/api/mcp/state'' \<Longrightarrow>
   map_of (searchParams g) ''sessionId'' = Some '''' \<Longrightarrow>
   httpMethod p = ''POST'' \<Longrightarrow>
   pathname p = ''/api/state'' \<or> pathname p = ''/api/mcp/state'' \<Longrightarrow>
   parsedBody p = Some j \<Longrightarrow> get_prop j ''sessionId'' = Some (JStr '''') \<Longrightarrow>
     handleRequest now g st =
       (json_response 400 (JObj [(''error'', JStr ''sessionId required'')]), st)
   \<and> handleRequest now p st =
       (json_response 400 (JObj [(''error'', JStr ''sessionId required'')]), st)
   \<and> getState (KPrim (JStr '''')) (stateStore (snd (handleRequest now req st))) =
       getState (KPrim (JStr '''')) (stateStore st)
   \<and> getState (KPrim (JStr '''')) (snd (setState now (KPrim (JStr '''')) x store)) =
       Some \<lparr>xml = x, version = fst (setState now (KPrim (JStr '''')) x store), lastUpdated = now\<rparr>"
proof -
  assume gm: "httpMethod g = ''GET''"
    and gp: "pathname g = ''/api/state'' \<or> pathname g = ''/api/mcp/state''"
    and gq: "map_of (searchParams g) ''sessionId'' = Some ''''"
    and pm: "httpMethod p = ''POST''"
    and pp: "pathname p = ''/api/state'' \<or> pathname p = ''/api/mcp/state''"
    and pb: "parsedBody p = Some j" and ps: "get_prop j ''sessionId'' = Some (JStr '''')"
  have a: "handleRequest now g st =
       (json_response 400 (JObj [(''error'', JStr ''sessionId required'')]), st)"
    using state_path_GET [OF gm gp] handleStateApi_GET_missing [of g now st] gm gq by simp
  have b: "handleRequest now p st =
       (json_response 400 (JObj [(''error'', JStr ''sessionId required'')]), st)"
    using state_path_POST [OF pm pp] handleStateApi_POST_falsy [OF pm pb ps] by simp
  have c: "getState (KPrim (JStr '''')) (stateStore (snd (handleRequest now req st))) =
       getState (KPrim (JStr '''')) (stateStore st)"
    using handleStateApi_empty_id [of now req st]
    by (simp add: handleRequest_def getState_def)
  have d: "getState (KPrim (JStr '''')) (snd (setState now (KPrim (JStr '''')) x store)) =
       Some \<lparr>xml = x, version = fst (setState now (KPrim (JStr '''')) x store), lastUpdated = now\<rparr>"
    by (simp add: getState_def setState_lookup setState_version)
  show ?thesis using a b c d by simp
qed

text \<open>The theorem at a GET with \<open>sessionId=\<close> and a POST of \<open>{"sessionId": "", "xml": "A"}\<close>.\<close>

theorem empty_id_is_missing_witness:
  "handleRequest 5
     \<lparr>httpMethod = ''GET'', pathname = ''/api/state'',
      searchParams = [(''sessionId'', '''')], parsedBody = None\<rparr>
     \<lparr>stateStore = [], nextRef = 0\<rparr> =
     (json_response 400 (JObj [(''error'', JStr ''sessionId required'')]),
      \<lparr>stateStore = [], nextRef = 0\<rparr>)
   \<and> handleRequest 5
     \<lparr>httpMethod = ''POST'', pathname = ''/api/mcp/state'', searchParams = [],
      parsedBody = Some (JObj [(''sessionId'', JStr ''''), (''xml'', JStr ''A'')])\<rparr>
     \<lparr>stateStore = [], nextRef = 0\<rparr> =
     (json_response 400 (JObj [(''error'', JStr ''sessionId required'')]),
      \<lparr>stateStore = [], nextRef = 0\<rparr>)"
proof -
  let ?g = "\<lparr>httpMethod = ''GET'', pathname = ''/api/state'',
      searchParams = [(''sessionId'', '''')], parsedBody = None\<rparr>"
  let ?j = "JObj [(''sessionId'', JStr ''''), (''xml'', JStr ''A'')]"
  let ?p = "\<lparr>httpMethod = ''POST'', pathname = ''/api/mcp/state'', searchParams = [],
      parsedBody = Some ?j\<rparr>"
  have h1: "httpMethod ?g = ''GET''" by simp
  have h2: "pathname ?g = ''/api/state'' \<or> pathname ?g = ''/api/mcp/state''" by simp
  have h3: "map_of (searchParams ?g) ''sessionId'' = Some ''''" by simp
  have h4: "httpMethod ?p = ''POST''" by simp
  have h5: "pathname ?p = ''/api/state'' \<or> pathname ?p = ''/api/mcp/state''" by simp
  have h6: "parsedBody ?p = Some ?j" by simp
  have h7: "get_prop ?j ''sessionId'' = Some (JStr '''')" by simp
  from empty_id_is_missing [OF h1 h2 h3 h4 h5 h6 h7]
  show ?thesis by blast
qed

section \<open>The sweep\<close>

text \<open>A run over entries whose keys all convert to strings ends without an error.\<close>

lemma cleanup_loop_filter:
  "\<forall>e \<in> set es. key_printable (fst e) \<Longrightarrow>
   cleanup_loop now es st =
     (None,
      filter (\<lambda>p. \<not> (\<exists>s. (fst p, s) \<in> set es \<and> now - lastUpdated s > SESSION_TTL)) st)"
proof (induction es arbitrary: st)
  case Nil
  show ?case by simp
next
  case (Cons e es)
  obtain k s where e: "e = (k, s)" by (cases e) auto
  have pk: "key_printable k" and pes: "\<forall>e \<in> set es. key_printable (fst e)"
    using Cons.prems e by simp_all
  note ih = Cons.IH [OF pes]
  show ?case
  proof (cases "now - lastUpdated s > SESSION_TTL")
    case True
    have "cleanup_loop now (e # es) st = cleanup_loop now es (AList.delete k st)"
      using e True pk by simp
    also have "\<dots> =
        (None,
         filter (\<lambda>p. \<not> (\<exists>s. (fst p, s) \<in> set es \<and> now - lastUpdated s > SESSION_TTL))
           (filter (\<lambda>p. fst p \<noteq> k) st))"
      by (simp add: ih AList.delete_eq case_prod_unfold eq_commute)
    also have "filter (\<lambda>p. \<not> (\<exists>s. (fst p, s) \<in> set es \<and> now - lastUpdated s > SESSION_TTL))
           (filter (\<lambda>p. fst p \<noteq> k) st)
        = filter (\<lambda>p. \<not> (\<exists>s. (fst p, s) \<in> set (e # es) \<and> now - lastUpdated s > SESSION_TTL)) st"
      using e True by (auto intro: filter_cong)
    finally show ?thesis .
  next
    case False
    have "cleanup_loop now (e # es) st = cleanup_loop now es st"
      using e False by simp
    also have "\<dots> =
        (None, filter (\<lambda>p. \<not> (\<exists>s. (fst p, s) \<in> set es \<and> now - lastUpdated s > SESSION_TTL)) st)"
      by (rule ih)
    also have "filter (\<lambda>p. \<not> (\<exists>s. (fst p, s) \<in> set es \<and> now - lastUpdated s > SESSION_TTL)) st
        = filter (\<lambda>p. \<not> (\<exists>s. (fst p, s) \<in> set (e # es) \<and> now - lastUpdated s > SESSION_TTL)) st"
      using e False by (auto intro: filter_cong)
    finally show ?thesis .
  qed
qed

lemma cleanup_filter:
  assumes "distinct (map fst st)" and "\<forall>e \<in> set st. key_printable (fst e)"
  shows "cleanupExpiredSessions now st =
           (None, filter (\<lambda>p. \<not> now - lastUpdated (snd p) > SESSION_TTL) st)"
proof -
  have "(\<exists>s. (fst p, s) \<in> set st \<and> now - lastUpdated s > SESSION_TTL)
        = (now - lastUpdated (snd p) > SESSION_TTL)" if "p \<in> set st" for p
  proof -
    have "s = snd p" if "(fst p, s) \<in> set st" for s
      using assms(1) \<open>p \<in> set st\<close> that
      by (metis eq_key_imp_eq_value prod.collapse)
    then show ?thesis using \<open>p \<in> set st\<close> by (metis prod.collapse)
  qed
  then have "filter (\<lambda>p. \<not> (\<exists>s. (fst p, s) \<in> set st \<and> now - lastUpdated s > SESSION_TTL)) st
       = filter (\<lambda>p. \<not> now - lastUpdated (snd p) > SESSION_TTL) st"
    by (intro filter_cong [OF refl]) simp
  then show ?thesis
    by (simp add: cleanupExpiredSessions_def cleanup_loop_filter [OF assms(2)])
qed

lemma map_of_filter_distinct:
  assumes "distinct (map fst st)"
  shows "map_of (filter P st) k =
           (case map_of st k of None \<Rightarrow> None | Some s \<Rightarrow> if P (k, s) then Some s else None)"
  using assms
proof (induction st)
  case Nil
  show ?case by simp
next
  case (Cons e st)
  obtain k' s' where e: "e = (k', s')" by (cases e) auto
  have notin: "map_of st k' = None" using Cons.prems e by (simp add: map_of_eq_None_iff)
  have ih: "map_of (filter P st) k =
           (case map_of st k of None \<Rightarrow> None | Some s \<Rightarrow> if P (k, s) then Some s else None)"
    using Cons by simp
  show ?case
  proof (cases "k = k'")
    case True
    then show ?thesis using e notin ih by simp
  next
    case False
    then show ?thesis using e ih by simp
  qed
qed

text \<open>
  A run stops at the first expired entry whose key does not convert: that entry is
  deleted, the error is thrown, and the entries after it are left as they are.
\<close>

lemma cleanup_loop_append:
  "cleanup_loop now (es @ es') st =
     (case cleanup_loop now es st of
        (None, st') \<Rightarrow> cleanup_loop now es' st'
      | (Some err, st') \<Rightarrow> (Some err, st'))"
  by (induction es arbitrary: st) (auto simp: Let_def)

lemma cleanup_loop_throws:
  "\<forall>e \<in> set es. key_printable (fst e) \<Longrightarrow> \<not> key_printable k \<Longrightarrow>
   now - lastUpdated s > SESSION_TTL \<Longrightarrow>
   cleanup_loop now (es @ (k, s) # es') st =
     (Some TypeError, AList.delete k (snd (cleanup_loop now es st)))"
  by (simp add: cleanup_loop_append cleanup_loop_filter)

text \<open>
  The keys of the store are distinct, as in a \<open>Map\<close>: \<open>setState\<close>, the sweep and
  the request handler keep them so.
\<close>

lemma distinct_setState:
  "distinct (map fst st) \<Longrightarrow> distinct (map fst (snd (setState now k x st)))"
  by (simp add: setState_def Let_def distinct_update)

lemma distinct_cleanup_loop:
  "distinct (map fst st) \<Longrightarrow> distinct (map fst (snd (cleanup_loop now es st)))"
  by (induction es arbitrary: st) (auto simp: Let_def distinct_delete)

lemma distinct_cleanup:
  "distinct (map fst st) \<Longrightarrow> distinct (map fst (snd (cleanupExpiredSessions now st)))"
  by (simp add: cleanupExpiredSessions_def distinct_cleanup_loop)

lemma handleStateApi_store:
  "stateStore (snd (handleStateApi now req st)) = stateStore st
   \<or> (\<exists>k x. stateStore (snd (handleStateApi now req st)) = snd (setState now k x (stateStore st)))"
proof (cases "httpMethod req = ''POST''")
  case False
  then show ?thesis by (simp add: handleStateApi_def Let_def)
next
  case post: True
  show ?thesis
  proof (cases "parsedBody req")
    case None
    then show ?thesis using post by (simp add: handleStateApi_POST_unparsable)
  next
    case (Some j)
    show ?thesis
    proof (cases "get_prop j ''sessionId''")
      case None
      then show ?thesis using post Some by (simp add: handleStateApi_POST_throws)
    next
      case sid: (Some sid)
      then obtain x where x: "get_prop j ''xml'' = Some x"
        using get_prop_total [of j "''sessionId''" "''xml''"] by auto
      show ?thesis
      proof (cases "truthy sid")
        case False
        then show ?thesis using post Some sid by (simp add: handleStateApi_POST_falsy)
      next
        case True
        have "stateStore (snd (handleStateApi now req st)) =
              snd (setState now (fst (to_key sid (nextRef st))) x (stateStore st))"
          using handleStateApi_POST_write [OF post Some sid x True, of now st] by simp
        then show ?thesis by blast
      qed
    qed
  qed
qed

lemma distinct_handleRequest:
  "distinct (map fst (stateStore st)) \<Longrightarrow>
   distinct (map fst (stateStore (snd (handleRequest now req st))))"
proof -
  assume d: "distinct (map fst (stateStore st))"
  then have "distinct (map fst (stateStore (snd (handleStateApi now req st))))"
    using handleStateApi_store [of now req st] distinct_setState [OF d] by auto
  then show ?thesis using d by (simp add: handleRequest_def)
qed

text \<open>
  On a store whose keys all convert to strings (every store whose keys are strings, as
  the type of \<open>stateStore\<close> declares), one run of the sweep returns without an error
  and leaves exactly the entries whose \<open>lastUpdated\<close> is not older than \<open>now\<close> minus
  the TTL, in their order and unchanged.
\<close>

lemma sweep_of_printable_store:
  "distinct (map fst st) \<Longrightarrow> \<forall>e \<in> set st. key_printable (fst e) \<Longrightarrow>
     cleanupExpiredSessions now st =
       (None, filter (\<lambda>p. \<not> lastUpdated (snd p) < now - SESSION_TTL) st)
   \<and> (\<forall>k s. getState k st = Some s \<longrightarrow>
         getState k (snd (cleanupExpiredSessions now st)) =
           (if lastUpdated s < now - SESSION_TTL then None else Some s))
   \<and> (\<forall>k. getState k st = None \<longrightarrow>
         getState k (snd (cleanupExpiredSessions now st)) = None)
   \<and> SESSION_TTL = 3600000"
proof -
  assume d: "distinct (map fst st)" and p: "\<forall>e \<in> set st. key_printable (fst e)"
  have c: "(now - lastUpdated s > SESSION_TTL) = (lastUpdated s < now - SESSION_TTL)" for s
    by auto
  have f: "cleanupExpiredSessions now st =
       (None, filter (\<lambda>p. \<not> lastUpdated (snd p) < now - SESSION_TTL) st)"
    using cleanup_filter [OF d p, of now] by (simp add: c)
  show ?thesis
    by (simp add: f getState_def map_of_filter_distinct [OF d] SESSION_TTL_def)
qed

text \<open>
  Claim C7 fails on the code. A POST whose session id is an object with a member
  \<open>toString\<close> is stored under that object (and answered 400); then \<open>B\<close> is written to
  the session \<open>b\<close>, both at the instant 0. The sweep at 3600001, when both records are
  older than the TTL, deletes the first, throws the TypeError of its log line, and leaves
  the record of \<open>b\<close> in the store.
\<close>

theorem sweep_stops_at_unprintable_key:
  "cleanupExpiredSessions 3600001
     (snd (setState 0 (KPrim (JStr ''b'')) (JStr ''B'')
        (stateStore (snd (handleRequest 0
           \<lparr>httpMethod = ''POST'', pathname = ''/api/state'', searchParams = [],
            parsedBody =
              Some (JObj [(''sessionId'', JObj [(''toString'', JNum 1)]),
                          (''xml'', JStr ''A'')])\<rparr>
           \<lparr>stateStore = [], nextRef = 0\<rparr>)))))
   = (Some TypeError,
      [(KPrim (JStr ''b''), \<lparr>xml = JStr ''B'', version = 1, lastUpdated = 0\<rparr>)])
   \<and> (0::int) < 3600001 - SESSION_TTL"
  by (simp add: cleanupExpiredSessions_def setState_def handleRequest_def handleStateApi_def
      SESSION_TTL_def)

section \<open>Starting and stopping the listener\<close>

lemma delivered_created:
  "delivered (length (servers l)) (created env port l) =
     l\<lparr>serverPort := port,
       server := Some (length (servers l)),
       servers := servers l @ [(listen_on env port)\<lparr>queued := None\<rparr>]\<rparr>"
  by (simp add: delivered_def created_def)

lemma start_started:
  "server l = Some srv \<Longrightarrow> startHttpServer env port l = (Inr (serverPort l), l, [])"
  by (subst startHttpServer.simps) simp

lemma start_ok:
  "server l = None \<Longrightarrow> env port = ListenOk chosen \<Longrightarrow>
   startHttpServer env port l =
     (Inr port,
      l\<lparr>serverPort := port,
        server := Some (length (servers l)),
        servers := servers l @
          [\<lparr>listenPort = port, handle = Some (bound_port port chosen), queued = None\<rparr>]\<rparr>,
      [port])"
  by (subst startHttpServer.simps) (simp add: delivered_created listen_on_def)

lemma start_other:
  "server l = None \<Longrightarrow> env port = ListenError code \<Longrightarrow> code \<noteq> ''EADDRINUSE'' \<Longrightarrow>
   startHttpServer env port l =
     (Inl (Errno code),
      l\<lparr>serverPort := port,
        server := Some (length (servers l)),
        servers := servers l @ [\<lparr>listenPort = port, handle = None, queued = None\<rparr>]\<rparr>,
      [port])"
  by (subst startHttpServer.simps) (simp add: delivered_created listen_on_def)

lemma start_ceiling:
  "server l = None \<Longrightarrow> env port = ListenError ''EADDRINUSE'' \<Longrightarrow> MAX_PORT \<le> port \<Longrightarrow>
   startHttpServer env port l =
     (Inl (Error ''No available ports in range 6002-6020''),
      l\<lparr>serverPort := port,
        server := Some (length (servers l)),
        servers := servers l @ [\<lparr>listenPort = port, handle = None, queued = None\<rparr>]\<rparr>,
      [port])"
  by (subst startHttpServer.simps) (simp add: delivered_created listen_on_def)

lemma start_retry:
  "server l = None \<Longrightarrow> env port = ListenError ''EADDRINUSE'' \<Longrightarrow> port < MAX_PORT \<Longrightarrow>
   startHttpServer env port l =
     (case startHttpServer env (port + 1) (retried port l) of
        (r, l2, tried) \<Rightarrow> (r, l2, port # tried))"
  by (subst startHttpServer.simps) (simp add: Let_def delivered_created listen_on_def retried_def)

lemma retried_server [simp]: "server (retried port l) = None"
  by (simp add: retried_def)

lemma start_induct [consumes 1, case_names ok other ceiling retry]:
  assumes fresh: "server l = None"
    and ok: "\<And>port l chosen. server l = None \<Longrightarrow> env port = ListenOk chosen \<Longrightarrow> P port l"
    and other: "\<And>port l code. server l = None \<Longrightarrow> env port = ListenError code \<Longrightarrow>
                  code \<noteq> ''EADDRINUSE'' \<Longrightarrow> P port l"
    and ceiling: "\<And>port l. server l = None \<Longrightarrow> env port = ListenError ''EADDRINUSE'' \<Longrightarrow>
                  MAX_PORT \<le> port \<Longrightarrow> P port l"
    and retry: "\<And>port l. server l = None \<Longrightarrow> env port = ListenError ''EADDRINUSE'' \<Longrightarrow>
                  port < MAX_PORT \<Longrightarrow> P (port + 1) (retried port l) \<Longrightarrow>
                  P port l"
  shows "P port l"
  using fresh
proof (induction "MAX_PORT - port" arbitrary: port l rule: less_induct)
  case less
  show ?case
  proof (cases "env port")
    case (ListenOk chosen)
    then show ?thesis using less.prems by (simp add: ok)
  next
    case (ListenError code)
    show ?thesis
    proof (cases "code = ''EADDRINUSE''")
      case False
      then show ?thesis using less.prems ListenError by (simp add: other)
    next
      case True
      show ?thesis
      proof (cases "port < MAX_PORT")
        case False
        then show ?thesis using less.prems ListenError True by (simp add: ceiling)
      next
        case below: True
        have "P (port + 1) (retried port l)"
          using below by (intro less.hyps) simp_all
        then show ?thesis using less.prems ListenError True below by (simp add: retry)
      qed
    qed
  qed
qed

lemma start_tried_nth:
  "server l = None \<Longrightarrow>
   snd (snd (startHttpServer env port l)) \<noteq> []
   \<and> (\<forall>i < length (snd (snd (startHttpServer env port l))).
         snd (snd (startHttpServer env port l)) ! i = port + i)"
proof (induction port l rule: start_induct [where env = env])
  case (ok port l chosen)
  then show ?case by (simp add: start_ok)
next
  case (other port l code)
  then show ?case by (simp add: start_other)
next
  case (ceiling port l)
  then show ?case by (simp add: start_ceiling)
next
  case (retry port l)
  let ?rec = "startHttpServer env (port + 1) (retried port l)"
  obtain r l2 tried where rec: "?rec = (r, l2, tried)" by (cases ?rec) auto
  have t: "startHttpServer env port l = (r, l2, port # tried)"
    using retry(1-3) rec by (simp add: start_retry)
  have ih: "\<forall>i < length tried. tried ! i = port + 1 + i" using retry.IH rec by simp
  have "(port # tried) ! i = port + i" if "i < length (port # tried)" for i
    using that ih by (cases i) auto
  then show ?case using t by simp
qed

lemma start_tried:
  "server l = None \<Longrightarrow>
   snd (snd (startHttpServer env port l)) =
     [port ..< port + length (snd (snd (startHttpServer env port l)))]"
  using start_tried_nth [of l env port] by (intro nth_equalityI) auto

lemma start_tried_nonempty:
  "server l = None \<Longrightarrow> snd (snd (startHttpServer env port l)) \<noteq> []"
  using start_tried_nth [of l env port] by simp

lemma start_retries:
  "server l = None \<Longrightarrow> q \<in> set (butlast (snd (snd (startHttpServer env port l)))) \<Longrightarrow>
   env q = ListenError ''EADDRINUSE'' \<and> q < MAX_PORT"
proof (induction port l rule: start_induct [where env = env])
  case (ok port l chosen)
  then show ?case by (simp add: start_ok)
next
  case (other port l code)
  then show ?case by (simp add: start_other)
next
  case (ceiling port l)
  then show ?case by (simp add: start_ceiling)
next
  case (retry port l)
  let ?rest = "snd (snd (startHttpServer env (port + 1) (retried port l)))"
  have t: "snd (snd (startHttpServer env port l)) = port # ?rest"
    using retry(1-3) by (simp add: start_retry split: prod.splits)
  have ne: "?rest \<noteq> []" by (simp add: start_tried_nonempty)
  have "q = port \<or> q \<in> set (butlast ?rest)" using retry.prems t ne by simp
  then show ?case using retry by auto
qed

lemma start_result:
  "server l = None \<Longrightarrow>
   (case startHttpServer env port l of
      (res, l', tried) \<Rightarrow>
        length (servers l') = length (servers l) + length tried
        \<and> server l' = Some (length (servers l') - 1)
        \<and> serverPort l' = last tried
        \<and> listenPort (last (servers l')) = last tried
        \<and> queued (last (servers l')) = None
        \<and> (case res of
             Inr b \<Rightarrow>
               b = last tried
               \<and> (\<exists>chosen. env b = ListenOk chosen
                     \<and> handle (last (servers l')) = Some (bound_port b chosen))
           | Inl (Error msg) \<Rightarrow>
               msg = ''No available ports in range 6002-6020'' \<and> MAX_PORT \<le> last tried
               \<and> env (last tried) = ListenError ''EADDRINUSE''
               \<and> handle (last (servers l')) = None
           | Inl (Errno code) \<Rightarrow>
               code \<noteq> ''EADDRINUSE'' \<and> env (last tried) = ListenError code
               \<and> handle (last (servers l')) = None))"
proof (induction port l rule: start_induct [where env = env])
  case (ok port l chosen)
  then show ?case by (simp add: start_ok)
next
  case (other port l code)
  then show ?case by (simp add: start_other)
next
  case (ceiling port l)
  then show ?case by (simp add: start_ceiling)
next
  case (retry port l)
  let ?rec = "startHttpServer env (port + 1) (retried port l)"
  have ne: "snd (snd ?rec) \<noteq> []" by (simp add: start_tried_nonempty retried_def)
  obtain r l2 tried where rec: "?rec = (r, l2, tried)" by (cases ?rec) auto
  have t: "startHttpServer env port l = (r, l2, port # tried)"
    using retry(1-3) rec by (simp add: start_retry)
  have len: "length (servers (retried port l)) = Suc (length (servers l))"
    by (simp add: retried_def)
  show ?case
    using retry.IH ne unfolding rec t prod.case len
    by (auto split: sum.splits start_error.splits)
qed

lemma upt_facts:
  assumes "tried = [port ..< port + length tried]" and "tried \<noteq> []"
  shows "last tried = port + length tried - 1"
    and "\<And>q. q \<in> set tried \<longleftrightarrow> port \<le> q \<and> q < port + length tried"
    and "\<And>q. q \<in> set (butlast tried) \<longleftrightarrow> port \<le> q \<and> q < port + length tried - 1"
proof -
  define n where "n = length tried"
  have n: "0 < n" and tried: "tried = [port ..< port + n]"
    using assms by (simp_all add: n_def)
  show "last tried = port + length tried - 1"
    unfolding n_def [symmetric] using n by (subst tried) simp
  show "q \<in> set tried \<longleftrightarrow> port \<le> q \<and> q < port + length tried" for q
    unfolding n_def [symmetric] by (subst tried) simp
  have "butlast tried = take (n - 1) [port ..< port + n]"
    by (subst tried) (simp add: butlast_conv_take)
  also have "\<dots> = [port ..< port + (n - 1)]"
    by (rule take_upt) simp
  finally have "butlast tried = [port ..< port + (n - 1)]" .
  then show "q \<in> set (butlast tried) \<longleftrightarrow> port \<le> q \<and> q < port + length tried - 1" for q
    unfolding n_def [symmetric] using n by simp
qed

text \<open>
  Claim C5, amended. Start the listener with any preferred port while \<open>server\<close> is
  \<open>null\<close>. The ports \<open>listen\<close> is called on are the preferred port and then each next
  port in turn; a port is followed by another attempt exactly when it was in use and
  lies below the ceiling; so no retry goes above the ceiling, and every attempted port is
  at most the larger of the preferred port and the ceiling (at most the ceiling, for a
  preferred port that is not above it). The call always settles: with the port of the
  last attempt, which was free, and which is strictly greater than the preferred port
  when that one was in use; or with the error \<open>No available ports in range 6002-6020\<close>,
  when the last attempt was at or above the ceiling and the port in use; or with the
  listener's own error, when the last attempt failed with a code other than
  \<open>EADDRINUSE\<close> (so there was no retry after it). The ceiling is 18 above the default
  port 6002.
\<close>

theorem port_ladder:
  "server l = None \<Longrightarrow>
   (case startHttpServer env port l of
      (res, l', tried) \<Rightarrow>
        tried \<noteq> [] \<and> tried = [port ..< port + length tried]
        \<and> (\<forall>q \<in> set (butlast tried). env q = ListenError ''EADDRINUSE'' \<and> q < MAX_PORT)
        \<and> (\<forall>q \<in> set tried. env q = ListenError ''EADDRINUSE'' \<and> q < MAX_PORT \<longrightarrow> q + 1 \<in> set tried)
        \<and> (\<forall>q \<in> set tried. q \<le> max port MAX_PORT)
        \<and> (case res of
             Inr b \<Rightarrow>
               b = last tried \<and> (\<exists>chosen. env b = ListenOk chosen)
               \<and> (env port = ListenError ''EADDRINUSE'' \<longrightarrow> port < b)
           | Inl (Error msg) \<Rightarrow>
               msg = ''No available ports in range 6002-6020'' \<and> MAX_PORT \<le> last tried
               \<and> env (last tried) = ListenError ''EADDRINUSE''
           | Inl (Errno code) \<Rightarrow>
               code \<noteq> ''EADDRINUSE'' \<and> env (last tried) = ListenError code))
   \<and> MAX_PORT = 6002 + 18"
proof -
  assume fresh: "server l = None"
  obtain res l' tried where out: "startHttpServer env port l = (res, l', tried)"
    by (cases "startHttpServer env port l") auto
  have ne: "tried \<noteq> []" using start_tried_nonempty [OF fresh, of env port] out by simp
  have shape: "tried = [port ..< port + length tried]"
    using start_tried [OF fresh, of env port] out by simp
  note last = upt_facts(1) [OF shape ne] and mem = upt_facts(2) [OF shape ne]
    and bl = upt_facts(3) [OF shape ne]
  have retries: "\<forall>q \<in> set (butlast tried). env q = ListenError ''EADDRINUSE'' \<and> q < MAX_PORT"
    using start_retries [OF fresh, of _ env port] out by simp
  have result: "case res of
             Inr b \<Rightarrow> b = last tried \<and> (\<exists>chosen. env b = ListenOk chosen)
           | Inl (Error msg) \<Rightarrow>
               msg = ''No available ports in range 6002-6020'' \<and> MAX_PORT \<le> last tried
               \<and> env (last tried) = ListenError ''EADDRINUSE''
           | Inl (Errno code) \<Rightarrow>
               code \<noteq> ''EADDRINUSE'' \<and> env (last tried) = ListenError code"
    using start_result [OF fresh, of env port] unfolding out
    by (auto split: sum.splits start_error.splits)
  have stoplast: "\<not> (env (last tried) = ListenError ''EADDRINUSE'' \<and> last tried < MAX_PORT)"
    using result by (auto split: sum.splits start_error.splits)
  have next_tried:
    "\<forall>q \<in> set tried. env q = ListenError ''EADDRINUSE'' \<and> q < MAX_PORT \<longrightarrow> q + 1 \<in> set tried"
  proof (intro ballI impI)
    fix q assume q: "q \<in> set tried" and busy: "env q = ListenError ''EADDRINUSE'' \<and> q < MAX_PORT"
    then have "q \<noteq> last tried" using stoplast by blast
    moreover have "port \<le> q" "q < port + length tried" using q mem [of q] by simp_all
    ultimately have "port \<le> q + 1 \<and> q + 1 < port + length tried" using last by arith
    then show "q + 1 \<in> set tried" using mem [of "q + 1"] by simp
  qed
  have bound: "\<forall>q \<in> set tried. q \<le> max port MAX_PORT"
  proof
    fix q assume q: "q \<in> set tried"
    show "q \<le> max port MAX_PORT"
    proof (cases "length tried = 1")
      case True
      moreover have "port \<le> q" "q < port + length tried" using q mem [of q] by simp_all
      ultimately show ?thesis by arith
    next
      case False
      moreover have "0 < length tried" using ne by simp
      ultimately have two: "2 \<le> length tried" by arith
      then have "port \<le> last tried - 1 \<and> last tried - 1 < port + length tried - 1"
        using last by arith
      then have "last tried - 1 \<in> set (butlast tried)"
        using bl [of "last tried - 1"] by simp
      then have "last tried - 1 < MAX_PORT" using retries by blast
      moreover have "q < port + length tried" using q mem [of q] by simp
      ultimately show ?thesis using last by arith
    qed
  qed
  have final: "case res of
             Inr b \<Rightarrow>
               b = last tried \<and> (\<exists>chosen. env b = ListenOk chosen)
               \<and> (env port = ListenError ''EADDRINUSE'' \<longrightarrow> port < b)
           | Inl (Error msg) \<Rightarrow>
               msg = ''No available ports in range 6002-6020'' \<and> MAX_PORT \<le> last tried
               \<and> env (last tried) = ListenError ''EADDRINUSE''
           | Inl (Errno code) \<Rightarrow>
               code \<noteq> ''EADDRINUSE'' \<and> env (last tried) = ListenError code"
  proof (cases res)
    case (Inl e)
    then show ?thesis using result by simp
  next
    case (Inr b)
    have "b = last tried \<and> (\<exists>chosen. env b = ListenOk chosen)"
      using result unfolding Inr sum.case .
    then have b: "b = last tried" "\<exists>chosen. env b = ListenOk chosen" by blast+
    have "0 < length tried" using ne by simp
    then have "port \<le> b" using b(1) last by arith
    moreover have "b \<noteq> port" if "env port = ListenError ''EADDRINUSE''"
      using that b(2) by auto
    ultimately show ?thesis using Inr b by auto
  qed
  have m: "MAX_PORT = 6002 + 18" by (simp add: MAX_PORT_def)
  show ?thesis
    unfolding out prod.case
    using ne shape retries next_tried bound final m by (intro conjI)
qed

text \<open>The ladder from 6002 with 6002 and 6003 in use.\<close>

lemma ladder_example:
  "startHttpServer (busy_below 6004) 6002 initial_listener =
     (Inr 6004,
      \<lparr>server = Some 2, serverPort = 6004,
       servers =
         [\<lparr>listenPort = 6002, handle = None, queued = None\<rparr>,
          \<lparr>listenPort = 6003, handle = None, queued = None\<rparr>,
          \<lparr>listenPort = 6004, handle = Some 6004, queued = None\<rparr>]\<rparr>,
      [6002, 6003, 6004])"
  by (simp add: start_retry start_ok busy_below_def MAX_PORT_def initial_listener_def
      retried_def bound_port_def)

text \<open>The theorem at the preferred port 6002 with 6002 and 6003 in use: the port is 6004.\<close>

theorem port_ladder_witness:
  "server initial_listener = None
   \<and> startHttpServer (busy_below 6004) 6002 initial_listener =
       (Inr 6004,
        \<lparr>server = Some 2, serverPort = 6004,
         servers =
           [\<lparr>listenPort = 6002, handle = None, queued = None\<rparr>,
            \<lparr>listenPort = 6003, handle = None, queued = None\<rparr>,
            \<lparr>listenPort = 6004, handle = Some 6004, queued = None\<rparr>]\<rparr>,
        [6002, 6003, 6004])
   \<and> busy_below 6004 6003 = ListenError ''EADDRINUSE'' \<and> 6003 < MAX_PORT
   \<and> (\<exists>chosen. busy_below 6004 6004 = ListenOk chosen)
   \<and> 6004 \<le> max 6002 MAX_PORT"
proof -
  have h: "server initial_listener = None" by (simp add: initial_listener_def)
  note t = port_ladder [OF h, where env = "busy_below 6004" and port = 6002, unfolded ladder_example prod.case sum.case]
  from t have "busy_below 6004 6003 = ListenError ''EADDRINUSE'' \<and> 6003 < MAX_PORT
   \<and> (\<exists>chosen. busy_below 6004 6004 = ListenOk chosen)
   \<and> 6004 \<le> max 6002 MAX_PORT"
    by simp
  with h ladder_example show ?thesis by blast
qed

text \<open>
  Claim C5 as stated, for every preferred port, fails at 6021: the port is free,
  \<open>listen\<close> is called on it and the promise resolves with it, above the ceiling 6020.
  The ceiling stops retries only (\<open>if (port >= MAX_PORT)\<close> is inside the error handler).
\<close>

theorem port_above_ceiling_counterexample:
  "startHttpServer all_free 6021 initial_listener =
     (Inr 6021,
      \<lparr>server = Some 0, serverPort = 6021,
       servers = [\<lparr>listenPort = 6021, handle = Some 6021, queued = None\<rparr>]\<rparr>,
      [6021])
   \<and> MAX_PORT < 6021"
  by (simp add: start_ok all_free_def MAX_PORT_def initial_listener_def bound_port_def)

text \<open>The invariant of the awaited calls.\<close>

lemma quiet_initial: "quiet initial_listener"
  by (simp add: quiet_def initial_listener_def)

lemma quiet_no_socket:
  "quiet l \<Longrightarrow> server l = None \<Longrightarrow> i < length (servers l) \<Longrightarrow> handle (servers l ! i) = None"
  by (auto simp: quiet_def)

text \<open>appending a server that has no event queued\<close>

lemma quiet_append:
  assumes q: "quiet l" and n: "server l = None"
    and h: "\<And>b. h = Some b \<Longrightarrow> port \<noteq> 0 \<Longrightarrow> b = port"
  shows "quiet (l\<lparr>serverPort := port, server := Some (length (servers l)),
                   servers := servers l @ [\<lparr>listenPort = port, handle = h, queued = None\<rparr>]\<rparr>)"
    (is "quiet ?l'")
proof -
  let ?new = "\<lparr>listenPort = port, handle = h, queued = None\<rparr>"
  have old: "handle (servers l ! i) = None" "queued (servers l ! i) = None"
    if "i < length (servers l)" for i
    using q n that by (auto simp: quiet_def)
  have nth: "servers ?l' ! i = (if i < length (servers l) then servers l ! i else ?new)"
    if "i < length (servers ?l')" for i
    using that by (auto simp: nth_append less_Suc_eq)
  have "queued (servers ?l' ! i) = None
        \<and> (handle (servers ?l' ! i) \<noteq> None \<longrightarrow>
             server ?l' = Some i \<and> serverPort ?l' = listenPort (servers ?l' ! i))
        \<and> (\<forall>b. handle (servers ?l' ! i) = Some b \<longrightarrow> listenPort (servers ?l' ! i) \<noteq> 0 \<longrightarrow>
                b = listenPort (servers ?l' ! i))"
    if i: "i < length (servers ?l')" for i
  proof (cases "i < length (servers l)")
    case True
    then show ?thesis unfolding nth [OF i] using old [OF True] by simp
  next
    case False
    then have "i = length (servers l)" using i by simp
    then show ?thesis unfolding nth [OF i] using h by auto
  qed
  moreover have "\<forall>s. server ?l' = Some s \<longrightarrow> s < length (servers ?l')" by simp
  ultimately show ?thesis unfolding quiet_def by blast
qed

lemma quiet_retried:
  assumes q: "quiet l" and n: "server l = None"
  shows "quiet (retried port l)"
proof -
  let ?new = "\<lparr>listenPort = port, handle = None, queued = None\<rparr>"
  have len: "length (servers (retried port l)) = Suc (length (servers l))"
    by (simp add: retried_def)
  have srv: "server (retried port l) = None" by (simp add: retried_def)
  have old: "handle (servers l ! i) = None" "queued (servers l ! i) = None"
    if "i < length (servers l)" for i
    using q n that by (auto simp: quiet_def)
  have nth: "servers (retried port l) ! i = (if i < length (servers l) then servers l ! i else ?new)"
    if "i < Suc (length (servers l))" for i
    using that by (auto simp: retried_def nth_append less_Suc_eq)
  have "queued (servers (retried port l) ! i) = None \<and> handle (servers (retried port l) ! i) = None"
    if i: "i < Suc (length (servers l))" for i
  proof (cases "i < length (servers l)")
    case True
    then show ?thesis unfolding nth [OF i] using old [OF True] by simp
  next
    case False
    then show ?thesis unfolding nth [OF i] by simp
  qed
  then show ?thesis unfolding quiet_def len srv by simp
qed

lemma start_retry_state:
  "server l = None \<Longrightarrow> env port = ListenError ''EADDRINUSE'' \<Longrightarrow> port < MAX_PORT \<Longrightarrow>
   fst (snd (startHttpServer env port l)) =
     fst (snd (startHttpServer env (port + 1) (retried port l)))"
  by (simp add: start_retry split_beta)


lemma quiet_start:
  "quiet l \<Longrightarrow> quiet (fst (snd (startHttpServer env port l)))"
proof (cases "server l")
  case (Some s)
  assume "quiet l"
  then show ?thesis using Some by (simp add: start_started)
next
  case None
  then have "quiet l \<longrightarrow> quiet (fst (snd (startHttpServer env port l)))"
  proof (induction port l rule: start_induct [where env = env])
    case (ok port l chosen)
    show ?case
    proof
      assume q: "quiet l"
      have "quiet (l\<lparr>serverPort := port, server := Some (length (servers l)),
                   servers := servers l @
                    [\<lparr>listenPort = port, handle = Some (bound_port port chosen), queued = None\<rparr>]\<rparr>)"
        using q ok(1) by (rule quiet_append) (simp add: bound_port_def)
      then show "quiet (fst (snd (startHttpServer env port l)))"
        using ok by (simp add: start_ok)
    qed
  next
    case (other port l code)
    show ?case
    proof
      assume q: "quiet l"
      have "quiet (l\<lparr>serverPort := port, server := Some (length (servers l)),
                   servers := servers l @ [\<lparr>listenPort = port, handle = None, queued = None\<rparr>]\<rparr>)"
        using q other(1) by (rule quiet_append) simp
      then show "quiet (fst (snd (startHttpServer env port l)))"
        using other by (simp add: start_other)
    qed
  next
    case (ceiling port l)
    show ?case
    proof
      assume q: "quiet l"
      have "quiet (l\<lparr>serverPort := port, server := Some (length (servers l)),
                   servers := servers l @ [\<lparr>listenPort = port, handle = None, queued = None\<rparr>]\<rparr>)"
        using q ceiling(1) by (rule quiet_append) simp
      then show "quiet (fst (snd (startHttpServer env port l)))"
        using ceiling by (simp add: start_ceiling)
    qed
  next
    case (retry port l)
    show ?case
    proof
      assume q: "quiet l"
      then have "quiet (retried port l)" using retry(1) by (rule quiet_retried)
      then have "quiet (fst (snd (startHttpServer env (port + 1) (retried port l))))"
        using retry.IH by blast
      then show "quiet (fst (snd (startHttpServer env port l)))"
        using retry(1-3) by (simp add: start_retry_state)
    qed
  qed
  moreover assume "quiet l"
  ultimately show ?thesis by blast
qed

lemma quiet_handle:
  "quiet l \<Longrightarrow> i < length (servers l) \<Longrightarrow> handle (servers l ! i) = Some b \<Longrightarrow>
   server l = Some i \<and> serverPort l = listenPort (servers l ! i)
   \<and> (listenPort (servers l ! i) \<noteq> 0 \<longrightarrow> b = listenPort (servers l ! i))"
  unfolding quiet_def by blast

lemma quiet_queued:
  "quiet l \<Longrightarrow> i < length (servers l) \<Longrightarrow> queued (servers l ! i) = None"
  unfolding quiet_def by blast

lemma quiet_server:
  "quiet l \<Longrightarrow> server l = Some s \<Longrightarrow> s < length (servers l)"
  unfolding quiet_def by blast

lemma quietI:
  "(\<And>i. i < length (servers l) \<Longrightarrow> queued (servers l ! i) = None \<and> handle (servers l ! i) = None)
   \<Longrightarrow> server l = None \<Longrightarrow> quiet l"
  unfolding quiet_def by simp

lemma stop_state:
  "server l = Some s \<Longrightarrow> s < length (servers l) \<Longrightarrow> i < length (servers l) \<Longrightarrow>
   servers (stopHttpServer l) ! i =
     (if i = s then (servers l ! s)\<lparr>handle := None\<rparr> else servers l ! i)"
  by (simp add: stopHttpServer_def nth_list_update)

lemma stop_length: "length (servers (stopHttpServer l)) = length (servers l)"
  by (simp add: stopHttpServer_def split: option.splits)

lemma stop_server: "server (stopHttpServer l) = None"
  by (simp add: stopHttpServer_def split: option.splits)

lemma stop_closes:
  assumes q: "quiet l" and i: "i < length (servers l)"
  shows "handle (servers (stopHttpServer l) ! i) = None"
proof (cases "server l")
  case None
  then show ?thesis using quiet_no_socket [OF q None i] by (simp add: stopHttpServer_def)
next
  case (Some s)
  have s: "s < length (servers l)" using q Some by (rule quiet_server)
  show ?thesis
  proof (cases "i = s")
    case True
    then show ?thesis using stop_state [OF Some s i] by simp
  next
    case False
    have "handle (servers l ! i) = None"
    proof (cases "handle (servers l ! i)")
      case None
      then show ?thesis .
    next
      case (Some b)
      from quiet_handle [OF q i Some] have "server l = Some i" by blast
      then show ?thesis using \<open>server l = Some s\<close> False by simp
    qed
    then show ?thesis using stop_state [OF Some s i] False by simp
  qed
qed

lemma stop_queued:
  assumes q: "quiet l" and i: "i < length (servers l)"
  shows "queued (servers (stopHttpServer l) ! i) = None"
proof (cases "server l")
  case None
  then show ?thesis using quiet_queued [OF q i] by (simp add: stopHttpServer_def)
next
  case (Some s)
  have s: "s < length (servers l)" using q Some by (rule quiet_server)
  show ?thesis
    using stop_state [OF Some s i] quiet_queued [OF q i] quiet_queued [OF q s] by simp
qed

lemma quiet_stop:
  assumes q: "quiet l"
  shows "quiet (stopHttpServer l)"
proof (rule quietI)
  fix i assume "i < length (servers (stopHttpServer l))"
  then have i: "i < length (servers l)" by (simp only: stop_length)
  show "queued (servers (stopHttpServer l) ! i) = None \<and> handle (servers (stopHttpServer l) ! i) = None"
    using stop_queued [OF q i] stop_closes [OF q i] by simp
next
  show "server (stopHttpServer l) = None" by (rule stop_server)
qed

lemma quiet_calls: "quiet l \<Longrightarrow> quiet (listener_calls l cs)"
proof (induction cs arbitrary: l)
  case Nil
  then show ?case by simp
next
  case (Cons c cs)
  then show ?case by (cases c) (simp_all add: quiet_start quiet_stop)
qed

lemma quiet_reachable: "quiet (listener_calls initial_listener cs)"
  by (rule quiet_calls) (rule quiet_initial)

lemma listening_on_Some:
  "listening_on l = Some b \<longleftrightarrow>
     (\<exists>s. server l = Some s \<and> s < length (servers l) \<and> handle (servers l ! s) = Some b)"
  by (auto simp: listening_on_def split: option.splits if_splits)

lemma stop_not_listening: "listening_on (stopHttpServer l) = None"
  by (simp add: listening_on_def stop_server)

lemma stop_port: "getServerPort (stopHttpServer l) = getServerPort l"
  by (simp add: getServerPort_def stopHttpServer_def split: option.splits)

lemma start_first_free:
  "server l = None \<Longrightarrow> env port = ListenOk chosen \<Longrightarrow>
   fst (startHttpServer env port l) = Inr port \<and> snd (snd (startHttpServer env port l)) = [port]"
  by (simp add: start_ok)

lemma start_listening:
  assumes fresh: "server l = None" and out: "startHttpServer env port l = (Inr b, l', tried)"
  shows "b = last tried \<and> getServerPort l' = b \<and> server l' = Some (length (servers l') - 1)
         \<and> length (servers l) < length (servers l')
         \<and> (\<exists>chosen. env b = ListenOk chosen \<and> listening_on l' = Some (bound_port b chosen))"
proof -
  have ne: "tried \<noteq> []" using start_tried_nonempty [OF fresh, of env port] out by simp
  have r: "length (servers l') = length (servers l) + length tried"
    "server l' = Some (length (servers l') - 1)" "serverPort l' = last tried" "b = last tried"
    "\<exists>chosen. env b = ListenOk chosen \<and> handle (last (servers l')) = Some (bound_port b chosen)"
    using start_result [OF fresh, of env port] unfolding out by auto
  have pos: "length (servers l) < length (servers l')" using r(1) ne by simp
  then have nonempty: "servers l' \<noteq> []" by auto
  have last: "last (servers l') = servers l' ! (length (servers l') - 1)"
    using nonempty by (rule last_conv_nth)
  obtain chosen where c: "env b = ListenOk chosen"
    "handle (servers l' ! (length (servers l') - 1)) = Some (bound_port b chosen)"
    using r(5) unfolding last by blast
  have "listening_on l' = Some (bound_port b chosen)"
    unfolding listening_on_Some using r(2) c(2) nonempty by simp
  then show ?thesis using r(2,3,4) pos c(1) by (auto simp: getServerPort_def)
qed

lemma sync_fresh:
  "server l = None \<Longrightarrow> startHttpServer_sync env port l = (None, created env port l)"
  by (simp add: startHttpServer_sync_def)

lemma created_nth:
  "servers (created env port l) ! length (servers l) = listen_on env port"
  "length (servers (created env port l)) = Suc (length (servers l))"
  by (simp_all add: created_def)

lemma deliver_listening:
  "env port = ListenOk chosen \<Longrightarrow>
   deliver env' (length (servers l)) (created env port l) =
     (Some (Inr port), (delivered (length (servers l)) (created env port l))\<lparr>serverPort := port\<rparr>)"
  by (simp add: deliver_def created_nth listen_on_def Let_def)

lemma deliver_other:
  "env port = ListenError code \<Longrightarrow> code \<noteq> ''EADDRINUSE'' \<Longrightarrow>
   deliver env' (length (servers l)) (created env port l) =
     (Some (Inl (Errno code)), delivered (length (servers l)) (created env port l))"
  by (simp add: deliver_def created_nth listen_on_def Let_def)

lemma deliver_ceiling:
  "env port = ListenError ''EADDRINUSE'' \<Longrightarrow> MAX_PORT \<le> port \<Longrightarrow>
   deliver env' (length (servers l)) (created env port l) =
     (Some (Inl (Error ''No available ports in range 6002-6020'')),
      delivered (length (servers l)) (created env port l))"
  by (simp add: deliver_def created_nth listen_on_def Let_def)

lemma deliver_retry:
  "env port = ListenError ''EADDRINUSE'' \<Longrightarrow> port < MAX_PORT \<Longrightarrow>
   deliver env' (length (servers l)) (created env port l) =
     (None, created env' (port + 1) (retried port l))"
  by (simp add: deliver_def created_nth listen_on_def Let_def startHttpServer_sync_def
      delivered_created retried_def)

text \<open>
  The awaited start is the call followed by the events of the servers it creates, in the
  order of their creation, with nothing in between.
\<close>

lemma start_awaited:
  "server l = None \<Longrightarrow>
   (case startHttpServer env port l of
      (res, l', tried) \<Rightarrow>
        deliveries env (length (servers l)) (length tried)
          (snd (startHttpServer_sync env port l)) = (Some res, l'))"
proof (induction port l rule: start_induct [where env = env])
  case (ok port l chosen)
  then show ?case
    by (simp add: startHttpServer.simps [of env port l] sync_fresh deliver_listening)
next
  case (other port l code)
  then show ?case
    by (simp add: startHttpServer.simps [of env port l] sync_fresh deliver_other)
next
  case (ceiling port l)
  then show ?case
    by (simp add: startHttpServer.simps [of env port l] sync_fresh deliver_ceiling)
next
  case (retry port l)
  let ?rec = "startHttpServer env (port + 1) (retried port l)"
  obtain r l2 tried where rec: "?rec = (r, l2, tried)" by (cases ?rec) auto
  have t: "startHttpServer env port l = (r, l2, port # tried)"
    using retry(1-3) rec by (simp add: start_retry)
  have len: "length (servers (retried port l)) = Suc (length (servers l))"
    by (simp add: retried_def)
  have ih: "deliveries env (Suc (length (servers l))) (length tried)
          (created env (port + 1) (retried port l)) = (Some r, l2)"
    using retry.IH unfolding rec prod.case len by (simp add: sync_fresh)
  show ?case
    unfolding t prod.case using retry(1-3) ih
    by (simp add: sync_fresh deliver_retry)
qed

text \<open>
  Claim C6, amended. Let the listener be in any state that a sequence of awaited starts
  (in any environments, with any ports) and stops leads to from the initial one. When
  the server in \<open>server\<close> is listening, a start resolves with the recorded port
  (\<open>getServerPort\<close>), changes nothing, creates no server and calls \<open>listen\<close> on no
  port; and the recorded port is the port the socket is bound to, unless the recorded
  port is 0. No server but the one in \<open>server\<close> holds a socket. After
  \<open>stopHttpServer\<close> the variable \<open>server\<close> is \<open>null\<close> and no server holds a socket. A
  start after the stop creates as many new servers as it calls \<open>listen\<close>, at least
  one, the first on the port it was given; if that port is free, it resolves with it
  after that one attempt; and whenever it resolves, it resolves with the port of its
  last attempt, \<open>getServerPort\<close> returns that port, \<open>server\<close> is the server created
  last, a new one, the \<open>listen\<close> on that port succeeded, and that server holds the socket
  this \<open>listen\<close> bound: on that port, or for port 0 on the port the system chose.
\<close>

theorem start_stop:
  "l = listener_calls initial_listener cs \<Longrightarrow>
     (\<forall>b. listening_on l = Some b \<longrightarrow>
         startHttpServer env port l = (Inr (getServerPort l), l, [])
         \<and> (getServerPort l \<noteq> 0 \<longrightarrow> getServerPort l = b))
   \<and> (\<forall>i < length (servers l). handle (servers l ! i) \<noteq> None \<longrightarrow> server l = Some i)
   \<and> server (stopHttpServer l) = None
   \<and> listening_on (stopHttpServer l) = None
   \<and> (\<forall>i < length (servers (stopHttpServer l)). handle (servers (stopHttpServer l) ! i) = None)
   \<and> (case startHttpServer env port (stopHttpServer l) of
        (res, l', tried) \<Rightarrow>
          tried \<noteq> [] \<and> hd tried = port
          \<and> length (servers l') = length (servers l) + length tried
          \<and> (\<forall>chosen. env port = ListenOk chosen \<longrightarrow> res = Inr port \<and> tried = [port])
          \<and> (\<forall>b. res = Inr b \<longrightarrow>
                b = last tried \<and> getServerPort l' = b
                \<and> server l' = Some (length (servers l') - 1)
                \<and> length (servers l) < length (servers l')
                \<and> (\<exists>chosen. env b = ListenOk chosen
                      \<and> listening_on l' = Some (bound_port b chosen))))"
proof -
  assume l: "l = listener_calls initial_listener cs"
  have q: "quiet l" unfolding l by (rule quiet_reachable)
  have idem: "\<forall>b. listening_on l = Some b \<longrightarrow>
         startHttpServer env port l = (Inr (getServerPort l), l, [])
         \<and> (getServerPort l \<noteq> 0 \<longrightarrow> getServerPort l = b)"
  proof (intro allI impI)
    fix b assume "listening_on l = Some b"
    then obtain s where s: "server l = Some s" "s < length (servers l)"
      "handle (servers l ! s) = Some b"
      unfolding listening_on_Some by blast
    have "startHttpServer env port l = (Inr (getServerPort l), l, [])"
      using s(1) by (simp add: start_started getServerPort_def)
    moreover have "getServerPort l \<noteq> 0 \<longrightarrow> getServerPort l = b"
      using quiet_handle [OF q s(2,3)] by (simp add: getServerPort_def)
    ultimately show "startHttpServer env port l = (Inr (getServerPort l), l, [])
         \<and> (getServerPort l \<noteq> 0 \<longrightarrow> getServerPort l = b)" ..
  qed
  have one: "\<forall>i < length (servers l). handle (servers l ! i) \<noteq> None \<longrightarrow> server l = Some i"
  proof (intro allI impI)
    fix i assume i: "i < length (servers l)" and "handle (servers l ! i) \<noteq> None"
    then obtain b where "handle (servers l ! i) = Some b" by auto
    from quiet_handle [OF q i this] show "server l = Some i" by blast
  qed
  have stopped: "server (stopHttpServer l) = None" by (rule stop_server)
  have silent: "listening_on (stopHttpServer l) = None" by (rule stop_not_listening)
  have closed: "\<forall>i < length (servers (stopHttpServer l)). handle (servers (stopHttpServer l) ! i) = None"
    using stop_closes [OF q] by (simp add: stop_length)
  obtain res l' tried where out: "startHttpServer env port (stopHttpServer l) = (res, l', tried)"
    by (cases "startHttpServer env port (stopHttpServer l)") auto
  have ne: "tried \<noteq> []" using start_tried_nonempty [OF stopped, of env port] out by simp
  have "tried ! 0 = port" using start_tried_nth [OF stopped, of env port] out ne by simp
  then have hd: "hd tried = port" using ne by (simp add: hd_conv_nth)
  have len: "length (servers l') = length (servers l) + length tried"
    using start_result [OF stopped, of env port] unfolding out by (simp add: stop_length)
  have free: "\<forall>chosen. env port = ListenOk chosen \<longrightarrow> res = Inr port \<and> tried = [port]"
    using start_first_free [OF stopped, of env port] out by simp
  have res: "\<forall>b. res = Inr b \<longrightarrow>
                b = last tried \<and> getServerPort l' = b
                \<and> server l' = Some (length (servers l') - 1)
                \<and> length (servers l) < length (servers l')
                \<and> (\<exists>chosen. env b = ListenOk chosen
                      \<and> listening_on l' = Some (bound_port b chosen))"
  proof (intro allI impI)
    fix b assume "res = Inr b"
    then have "startHttpServer env port (stopHttpServer l) = (Inr b, l', tried)"
      using out by simp
    from start_listening [OF stopped this]
    show "b = last tried \<and> getServerPort l' = b
                \<and> server l' = Some (length (servers l') - 1)
                \<and> length (servers l) < length (servers l')
                \<and> (\<exists>chosen. env b = ListenOk chosen
                      \<and> listening_on l' = Some (bound_port b chosen))"
      unfolding stop_length by blast
  qed
  show ?thesis
    unfolding out prod.case
    using idem one stopped silent closed ne hd len free res by (intro conjI)
qed

lemma restart_state:
  "listener_calls initial_listener [Start (busy_below 6004) 6002] =
      \<lparr>server = Some 2, serverPort = 6004,
       servers =
         [\<lparr>listenPort = 6002, handle = None, queued = None\<rparr>,
          \<lparr>listenPort = 6003, handle = None, queued = None\<rparr>,
          \<lparr>listenPort = 6004, handle = Some 6004, queued = None\<rparr>]\<rparr>"
  by (simp add: ladder_example)

lemma restart_listening:
  "listening_on (listener_calls initial_listener [Start (busy_below 6004) 6002]) = Some 6004"
  unfolding restart_state by (simp add: listening_on_def)

text \<open>
  The theorem after a start at 6002 that found 6002 and 6003 in use: the listener is
  bound to 6004 and 6004 is recorded; a second start (asking for 6002, all ports free)
  resolves with 6004 and binds nothing; after a stop \<open>server\<close> is \<open>null\<close> and nothing is
  listening; and the start after the stop resolves with 6002, with the new server
  listening on 6002.
\<close>

theorem start_stop_witness:
  "getServerPort (listener_calls initial_listener [Start (busy_below 6004) 6002]) = 6004
   \<and> listening_on (listener_calls initial_listener [Start (busy_below 6004) 6002]) = Some 6004
   \<and> startHttpServer all_free 6002 (listener_calls initial_listener [Start (busy_below 6004) 6002]) =
       (Inr 6004, listener_calls initial_listener [Start (busy_below 6004) 6002], [])
   \<and> server (stopHttpServer (listener_calls initial_listener [Start (busy_below 6004) 6002])) = None
   \<and> listening_on (stopHttpServer (listener_calls initial_listener [Start (busy_below 6004) 6002])) = None
   \<and> fst (startHttpServer all_free 6002
            (stopHttpServer (listener_calls initial_listener [Start (busy_below 6004) 6002]))) = Inr 6002
   \<and> listening_on (fst (snd (startHttpServer all_free 6002
            (stopHttpServer (listener_calls initial_listener [Start (busy_below 6004) 6002]))))) = Some 6002"
proof -
  let ?l = "listener_calls initial_listener [Start (busy_below 6004) 6002]"
  let ?out = "startHttpServer all_free 6002 (stopHttpServer ?l)"
  have h: "?l = listener_calls initial_listener [Start (busy_below 6004) 6002]" by (rule refl)
  have s: "listening_on ?l = Some 6004" by (rule restart_listening)
  have p: "getServerPort ?l = 6004" unfolding restart_state by (simp add: getServerPort_def)
  have f: "all_free 6002 = ListenOk 49152" by (simp add: all_free_def)
  obtain res l' tried where out: "?out = (res, l', tried)" by (cases ?out) auto
  note t = start_stop [OF h, where env = all_free and port = 6002, unfolded out prod.case]
  from t s have a: "startHttpServer all_free 6002 ?l = (Inr (getServerPort ?l), ?l, [])"
    by blast
  from t have b: "server (stopHttpServer ?l) = None" "listening_on (stopHttpServer ?l) = None"
    by blast+
  from t f have c: "res = Inr 6002" by blast
  from t c have "\<exists>chosen. all_free 6002 = ListenOk chosen
                      \<and> listening_on l' = Some (bound_port 6002 chosen)"
    by blast
  then have d: "listening_on l' = Some 6002" by (auto simp: bound_port_def)
  show ?thesis using s p a b c d unfolding out by simp
qed

text \<open>
  A stop and a new start can end on another port: first 6002, then, with 6002 and 6003
  taken in the meantime, 6004, on the fourth server created.
\<close>

lemma restart_example:
  "listener_calls initial_listener [Start all_free 6002, Stop, Start (busy_below 6004) 6002] =
     \<lparr>server = Some 3, serverPort = 6004,
      servers =
        [\<lparr>listenPort = 6002, handle = None, queued = None\<rparr>,
         \<lparr>listenPort = 6002, handle = None, queued = None\<rparr>,
         \<lparr>listenPort = 6003, handle = None, queued = None\<rparr>,
         \<lparr>listenPort = 6004, handle = Some 6004, queued = None\<rparr>]\<rparr>"
  by (simp add: start_retry start_ok all_free_def busy_below_def MAX_PORT_def
      initial_listener_def stopHttpServer_def retried_def bound_port_def)

lemma failed_start_state:
  "listener_calls initial_listener [Start (busy_below 7000) 6019] =
     \<lparr>server = Some 1, serverPort = 6020,
      servers =
        [\<lparr>listenPort = 6019, handle = None, queued = None\<rparr>,
         \<lparr>listenPort = 6020, handle = None, queued = None\<rparr>]\<rparr>"
  by (simp add: start_retry start_ceiling busy_below_def MAX_PORT_def
      initial_listener_def retried_def)

lemma in_flight_state:
  "startHttpServer_sync (busy_below 6003) 6002 initial_listener =
     (None,
      \<lparr>server = Some 0, serverPort = 6002,
       servers = [\<lparr>listenPort = 6002, handle = None, queued = Some (EmitError ''EADDRINUSE'')\<rparr>]\<rparr>)"
  by (simp add: startHttpServer_sync_def created_def listen_on_def busy_below_def
      initial_listener_def)

lemma in_flight_deliveries:
  "deliveries (busy_below 6003) 0 2
     \<lparr>server = Some 0, serverPort = 6002,
      servers = [\<lparr>listenPort = 6002, handle = None, queued = Some (EmitError ''EADDRINUSE'')\<rparr>]\<rparr>
   = (Some (Inr 6003),
      \<lparr>server = Some 1, serverPort = 6003,
       servers =
         [\<lparr>listenPort = 6002, handle = None, queued = None\<rparr>,
          \<lparr>listenPort = 6003, handle = Some 6003, queued = None\<rparr>]\<rparr>)"
  by (simp add: numeral_2_eq_2 deliver_def delivered_def startHttpServer_sync_def created_def
      listen_on_def busy_below_def MAX_PORT_def bound_port_def Let_def)

text \<open>
  Claim C6 as stated fails in three places. The recorded port is the argument of
  \<open>listen\<close>, and \<open>server.address()\<close> is never read: after \<open>startHttpServer(0)\<close> the
  socket is bound to the port the system chose (here 49152) and \<open>getServerPort\<close>
  returns 0. After a start that failed (6019 and 6020 in use) \<open>server\<close> still holds the
  server that is not listening: the next start resolves with 6020 and binds nothing,
  and nothing is listening. And a start while another is in flight (6002 in use, its
  \<open>error\<close> event not yet delivered) resolves at once with 6002, while nothing is
  listening; the first start then binds 6003.
\<close>

theorem recorded_port_counterexample:
  "getServerPort (listener_calls initial_listener [Start all_free 0]) = 0
   \<and> listening_on (listener_calls initial_listener [Start all_free 0]) = Some 49152
   \<and> listening_on (listener_calls initial_listener [Start (busy_below 7000) 6019]) = None
   \<and> startHttpServer all_free 6002 (listener_calls initial_listener [Start (busy_below 7000) 6019]) =
       (Inr 6020, listener_calls initial_listener [Start (busy_below 7000) 6019], [])
   \<and> fst (startHttpServer_sync all_free 6002
            (snd (startHttpServer_sync (busy_below 6003) 6002 initial_listener))) = Some 6002
   \<and> listening_on (snd (startHttpServer_sync (busy_below 6003) 6002 initial_listener)) = None
   \<and> fst (deliveries (busy_below 6003) 0 2
            (snd (startHttpServer_sync (busy_below 6003) 6002 initial_listener))) = Some (Inr 6003)
   \<and> listening_on (snd (deliveries (busy_below 6003) 0 2
            (snd (startHttpServer_sync (busy_below 6003) 6002 initial_listener)))) = Some 6003"
proof -
  have zero: "listener_calls initial_listener [Start all_free 0] =
     \<lparr>server = Some 0, serverPort = 0,
      servers = [\<lparr>listenPort = 0, handle = Some 49152, queued = None\<rparr>]\<rparr>"
    by (simp add: start_ok all_free_def initial_listener_def bound_port_def)
  have a: "getServerPort (listener_calls initial_listener [Start all_free 0]) = 0"
    "listening_on (listener_calls initial_listener [Start all_free 0]) = Some 49152"
    unfolding zero by (simp_all add: getServerPort_def listening_on_def)
  have b: "listening_on (listener_calls initial_listener [Start (busy_below 7000) 6019]) = None"
    "startHttpServer all_free 6002 (listener_calls initial_listener [Start (busy_below 7000) 6019]) =
       (Inr 6020, listener_calls initial_listener [Start (busy_below 7000) 6019], [])"
    unfolding failed_start_state by (simp_all add: listening_on_def start_started)
  have c: "fst (startHttpServer_sync all_free 6002
            (snd (startHttpServer_sync (busy_below 6003) 6002 initial_listener))) = Some 6002"
    "listening_on (snd (startHttpServer_sync (busy_below 6003) 6002 initial_listener)) = None"
    unfolding in_flight_state by (simp_all add: startHttpServer_sync_def listening_on_def)
  have d: "fst (deliveries (busy_below 6003) 0 2
            (snd (startHttpServer_sync (busy_below 6003) 6002 initial_listener))) = Some (Inr 6003)"
    "listening_on (snd (deliveries (busy_below 6003) 0 2
            (snd (startHttpServer_sync (busy_below 6003) 6002 initial_listener)))) = Some 6003"
    unfolding in_flight_state snd_conv in_flight_deliveries by (simp_all add: listening_on_def)
  show ?thesis using a b c d by (intro conjI)
qed

text \<open>
  \<open>stopHttpServer\<close> between the call and the \<open>listening\<close> event: \<open>close\<close> gives up the
  socket, the event is dropped, and the promise of the start is never settled.
\<close>

lemma stop_in_flight_example:
  "deliveries all_free 0 1
     (stopHttpServer (snd (startHttpServer_sync all_free 6002 initial_listener))) =
     (None,
      \<lparr>server = None, serverPort = 6002,
       servers = [\<lparr>listenPort = 6002, handle = None, queued = None\<rparr>]\<rparr>)"
  by (simp add: deliver_def delivered_def startHttpServer_sync_def created_def
      listen_on_def all_free_def bound_port_def Let_def stopHttpServer_def initial_listener_def)

section \<open>The pending slot of the page script\<close>

lemma init_step:
  "is_init i \<Longrightarrow>
   client_step sid c i =
     (if truthy (pendingXml c)
      then (c\<lparr>isDrawioReady := True, lastLoadedXml := pendingXml c, pendingXml := JNull\<rparr>,
            [PostLoad (pendingXml c)])
      else (c\<lparr>isDrawioReady := True\<rparr>, []))"
proof (cases i)
  case (Message origin data)
  assume "is_init i"
  then obtain msg where "data = Some msg" "origin = ''https://embed.diagrams.net''"
    "get_prop msg ''event'' = Some (JStr ''init'')"
    using Message by (cases data) auto
  then show ?thesis
    using Message by (simp add: onMessage_def handleDrawioMessage_def loadDiagram_def)
qed auto

lemma pushState_no_load: "PostLoad x \<notin> set (pushState sid y)"
  by (simp add: pushState_def)

lemma message_not_init:
  "\<not> is_init (Message origin data) \<Longrightarrow>
   fst (onMessage sid origin data c) = c
   \<and> PostLoad x \<notin> set (snd (onMessage sid origin data c))"
proof (cases "origin = ''https://embed.diagrams.net''")
  case False
  then show ?thesis by (simp add: onMessage_def)
next
  case origin: True
  assume ni: "\<not> is_init (Message origin data)"
  show ?thesis
  proof (cases data)
    case None
    then show ?thesis by (simp add: onMessage_def)
  next
    case (Some msg)
    show ?thesis
    proof (cases "get_prop msg ''event''")
      case None
      then show ?thesis using Some by (simp add: onMessage_def handleDrawioMessage_def)
    next
      case ev: (Some ev)
      then have "ev \<noteq> JStr ''init''" using ni origin Some by simp
      then show ?thesis
        using Some ev
        by (auto simp: onMessage_def handleDrawioMessage_def pushState_no_load
            split: option.splits)
    qed
  qed
qed

lemma client_run_Cons:
  "fst (client_run sid c (e # es)) = fst (client_run sid (fst (client_step sid c e)) es)"
  "snd (client_run sid c (e # es)) =
     snd (client_step sid c e) @ snd (client_run sid (fst (client_step sid c e)) es)"
  by (simp_all add: split_beta)

lemma step_before_init:
  assumes "\<not> isDrawioReady c" and "\<not> is_init e"
  shows "\<not> isDrawioReady (fst (client_step sid c e))"
    and "PostLoad x \<notin> set (snd (client_step sid c e))"
    and "pendingXml (fst (client_step sid c e)) =
           (case e of
              PollDone y v \<Rightarrow> if v \<noteq> 0 \<and> v > currentVersion c \<and> truthy y then y else pendingXml c
            | _ \<Rightarrow> pendingXml c)"
proof -
  show "\<not> isDrawioReady (fst (client_step sid c e))"
  proof (cases e)
    case (Message origin data)
    then show ?thesis using assms message_not_init [of origin data sid c] by simp
  next
    case (PollDone y v)
    then show ?thesis using assms by (simp add: pollState_done_def loadDiagram_def)
  next
    case (PushDone y r)
    then show ?thesis using assms by (simp add: pushState_done_def split: option.splits)
  qed
  show "PostLoad x \<notin> set (snd (client_step sid c e))"
  proof (cases e)
    case (Message origin data)
    then show ?thesis using assms message_not_init [of origin data sid c x] by simp
  next
    case (PollDone y v)
    then show ?thesis using assms by (simp add: pollState_done_def loadDiagram_def)
  next
    case (PushDone y r)
    then show ?thesis by simp
  qed
  show "pendingXml (fst (client_step sid c e)) =
           (case e of
              PollDone y v \<Rightarrow> if v \<noteq> 0 \<and> v > currentVersion c \<and> truthy y then y else pendingXml c
            | _ \<Rightarrow> pendingXml c)"
  proof (cases e)
    case (Message origin data)
    then show ?thesis using assms message_not_init [of origin data sid c] by simp
  next
    case (PollDone y v)
    then show ?thesis using assms by (simp add: pollState_done_def loadDiagram_def)
  next
    case (PushDone y r)
    then show ?thesis by (simp add: pushState_done_def split: option.splits)
  qed
qed

lemma arrivals_truthy: "x \<in> set (arrivals sid c es) \<Longrightarrow> truthy x"
  by (induction es arbitrary: c) (auto split: event.splits if_splits)

lemma run_before_init:
  "\<not> isDrawioReady c \<Longrightarrow> \<forall>e \<in> set es. \<not> is_init e \<Longrightarrow>
   \<not> isDrawioReady (fst (client_run sid c es))
   \<and> PostLoad x \<notin> set (snd (client_run sid c es))
   \<and> pendingXml (fst (client_run sid c es)) =
         (if arrivals sid c es = [] then pendingXml c else last (arrivals sid c es))"
proof (induction es arbitrary: c)
  case Nil
  then show ?case by simp
next
  case (Cons e es)
  let ?c1 = "fst (client_step sid c e)"
  have e: "\<not> is_init e" and es: "\<forall>e \<in> set es. \<not> is_init e" using Cons.prems(2) by simp_all
  have r1: "\<not> isDrawioReady ?c1" using Cons.prems(1) e by (rule step_before_init(1))
  have a1: "PostLoad x \<notin> set (snd (client_step sid c e))"
    using Cons.prems(1) e by (rule step_before_init(2))
  have p1: "pendingXml ?c1 =
           (case e of
              PollDone y v \<Rightarrow> if v \<noteq> 0 \<and> v > currentVersion c \<and> truthy y then y else pendingXml c
            | _ \<Rightarrow> pendingXml c)"
    using Cons.prems(1) e by (rule step_before_init(3))
  note ih = Cons.IH [OF r1 es]
  have ready: "\<not> isDrawioReady (fst (client_run sid c (e # es)))"
    using ih unfolding client_run_Cons by blast
  have loads: "PostLoad x \<notin> set (snd (client_run sid c (e # es)))"
    using ih a1 unfolding client_run_Cons set_append Un_iff by blast
  have "pendingXml (fst (client_run sid c (e # es))) =
         (if arrivals sid ?c1 es = [] then pendingXml ?c1 else last (arrivals sid ?c1 es))"
    using ih unfolding client_run_Cons by blast
  also have "\<dots> = (if arrivals sid c (e # es) = [] then pendingXml c
                     else last (arrivals sid c (e # es)))"
    unfolding p1 by (cases e) (simp_all del: client_step.simps)
  finally show ?case using ready loads by blast
qed

lemma step_after_init:
  assumes "isDrawioReady c" and "pendingXml c = JNull"
  shows "isDrawioReady (fst (client_step sid c e)) \<and> pendingXml (fst (client_step sid c e)) = JNull"
proof (cases e)
  case (Message origin data)
  show ?thesis
  proof (cases "is_init e")
    case True
    then show ?thesis using assms init_step [of e sid c] by simp
  next
    case False
    then show ?thesis using assms Message message_not_init [of origin data sid c] by simp
  qed
next
  case (PollDone y v)
  then show ?thesis using assms by (simp add: pollState_done_def loadDiagram_def)
next
  case (PushDone y r)
  then show ?thesis using assms by (simp add: pushState_done_def split: option.splits)
qed

lemma run_after_init:
  "isDrawioReady c \<Longrightarrow> pendingXml c = JNull \<Longrightarrow>
   isDrawioReady (fst (client_run sid c es)) \<and> pendingXml (fst (client_run sid c es)) = JNull"
proof (induction es arbitrary: c)
  case Nil
  then show ?case by simp
next
  case (Cons e es)
  then show ?case
    using step_after_init [of c sid e] unfolding client_run_Cons by blast
qed

text \<open>
  Claim C9. Run the script of the page from its initial state over any sequence of
  events that has no \<open>init\<close> in it (polls, other messages of the editor, foreign and
  malformed messages, answers to pushes), and then let the editor's \<open>init\<close> arrive.
  Before the \<open>init\<close> the script is not ready and has posted no \<open>load\<close>; the pending
  slot is empty (\<open>null\<close>) when no XML has arrived, and otherwise holds the XML that
  arrived last: a later arrival overwrites an earlier one. The \<open>init\<close> makes the
  script ready, posts no \<open>load\<close> when nothing had arrived and exactly one \<open>load\<close>, of
  the staged XML, otherwise, and leaves the slot empty. Through every sequence of events
  after that the script stays ready and the slot stays empty, so another \<open>init\<close> posts
  nothing: the staged XML is flushed once.
\<close>

theorem pending_slot:
  "\<forall>e \<in> set es. \<not> is_init e \<Longrightarrow> is_init i \<Longrightarrow> is_init i' \<Longrightarrow>
   (case client_run sid initial_client es of
      (c, acts) \<Rightarrow>
        \<not> isDrawioReady c \<and> (\<forall>x. PostLoad x \<notin> set acts)
        \<and> pendingXml c =
            (if arrivals sid initial_client es = [] then JNull
             else last (arrivals sid initial_client es))
        \<and> (case client_step sid c i of
             (c1, acts1) \<Rightarrow>
               isDrawioReady c1 \<and> pendingXml c1 = JNull
               \<and> acts1 =
                   (if arrivals sid initial_client es = [] then []
                    else [PostLoad (last (arrivals sid initial_client es))])
               \<and> (case client_run sid c1 es' of
                    (c2, acts2) \<Rightarrow>
                      isDrawioReady c2 \<and> pendingXml c2 = JNull
                      \<and> snd (client_step sid c2 i') = [])))"
proof -
  assume pre: "\<forall>e \<in> set es. \<not> is_init e" and i: "is_init i" and i': "is_init i'"
  let ?arr = "arrivals sid initial_client es"
  obtain c acts where run: "client_run sid initial_client es = (c, acts)"
    by (cases "client_run sid initial_client es") auto
  have start: "\<not> isDrawioReady initial_client" "pendingXml initial_client = JNull"
    by (simp_all add: initial_client_def)
  have ready: "\<not> isDrawioReady c"
    using run_before_init [OF start(1) pre, where sid = sid] run by simp
  have loads: "\<forall>x. PostLoad x \<notin> set acts"
    using run_before_init [OF start(1) pre, where sid = sid] run by simp
  have pending: "pendingXml c = (if ?arr = [] then JNull else last ?arr)"
    using run_before_init [OF start(1) pre, where sid = sid] run start(2) by simp
  have tr: "truthy (pendingXml c) = (?arr \<noteq> [])"
    using pending arrivals_truthy [of "last ?arr" sid initial_client es] by auto
  obtain c1 acts1 where step: "client_step sid c i = (c1, acts1)"
    by (cases "client_step sid c i") auto
  have c1: "isDrawioReady c1 \<and> pendingXml c1 = JNull"
    using init_step [OF i, where sid = sid and c = c] step tr pending by (auto split: if_splits)
  have acts1: "acts1 = (if ?arr = [] then [] else [PostLoad (last ?arr)])"
    using init_step [OF i, where sid = sid and c = c] step tr pending by (auto split: if_splits)
  obtain c2 acts2 where run2: "client_run sid c1 es' = (c2, acts2)"
    by (cases "client_run sid c1 es'") auto
  have c2: "isDrawioReady c2 \<and> pendingXml c2 = JNull"
    using run_after_init [of c1 sid es'] c1 run2 by simp
  have again: "snd (client_step sid c2 i') = []"
    using init_step [OF i', where sid = sid and c = c2] c2 by simp
  show ?thesis
    unfolding run step run2 prod.case
    using ready loads pending c1 acts1 c2 again by (intro conjI) blast+
qed

text \<open>
  The theorem at a page of session \<open>s\<close> where the polls bring \<open>A\<close> (version 1) and
  \<open>B\<close> (version 2) with a \<open>save\<close> message in between, before the \<open>init\<close>: the
  slot holds \<open>B\<close> and the \<open>init\<close> posts the one \<open>load\<close> of \<open>B\<close>.
\<close>

theorem pending_slot_witness:
  "is_init (Message ''https://embed.diagrams.net'' (Some (JObj [(''event'', JStr ''init'')])))
   \<and> arrivals ''s'' initial_client
        [PollDone (JStr ''A'') 1,
         Message ''https://embed.diagrams.net''
           (Some (JObj [(''event'', JStr ''save''), (''xml'', JStr ''X'')])),
         PollDone (JStr ''B'') 2] = [JStr ''A'', JStr ''B'']
   \<and> pendingXml (fst (client_run ''s'' initial_client
        [PollDone (JStr ''A'') 1,
         Message ''https://embed.diagrams.net''
           (Some (JObj [(''event'', JStr ''save''), (''xml'', JStr ''X'')])),
         PollDone (JStr ''B'') 2])) = JStr ''B''
   \<and> snd (client_step ''s''
        (fst (client_run ''s'' initial_client
          [PollDone (JStr ''A'') 1,
           Message ''https://embed.diagrams.net''
             (Some (JObj [(''event'', JStr ''save''), (''xml'', JStr ''X'')])),
           PollDone (JStr ''B'') 2]))
        (Message ''https://embed.diagrams.net'' (Some (JObj [(''event'', JStr ''init'')]))))
     = [PostLoad (JStr ''B'')]"
proof -
  let ?init = "Message ''https://embed.diagrams.net'' (Some (JObj [(''event'', JStr ''init'')]))"
  let ?es = "[PollDone (JStr ''A'') 1,
         Message ''https://embed.diagrams.net''
           (Some (JObj [(''event'', JStr ''save''), (''xml'', JStr ''X'')])),
         PollDone (JStr ''B'') 2]"
  have h1: "\<forall>e \<in> set ?es. \<not> is_init e" by simp
  have h2: "is_init ?init" by simp
  have arr: "arrivals ''s'' initial_client ?es = [JStr ''A'', JStr ''B'']"
    by (simp add: initial_client_def pollState_done_def loadDiagram_def onMessage_def
        handleDrawioMessage_def)
  note t = pending_slot [OF h1 h2 h2, where sid = "''s''" and es' = "[]", unfolded split_beta]
  from t have p: "pendingXml (fst (client_run ''s'' initial_client ?es)) =
      (if arrivals ''s'' initial_client ?es = [] then JNull
       else last (arrivals ''s'' initial_client ?es))"
    by blast
  from t have a: "snd (client_step ''s'' (fst (client_run ''s'' initial_client ?es)) ?init) =
      (if arrivals ''s'' initial_client ?es = [] then []
       else [PostLoad (last (arrivals ''s'' initial_client ?es))])"
    by blast
  have p': "pendingXml (fst (client_run ''s'' initial_client ?es)) = JStr ''B''"
    using p unfolding arr by simp
  have a': "snd (client_step ''s'' (fst (client_run ''s'' initial_client ?es)) ?init)
      = [PostLoad (JStr ''B'')]"
    using a unfolding arr by simp
  from h2 arr p' a' show ?thesis by (intro conjI)
qed

end
